theory Spec2Isabelle
  imports Complex_Main "HOL-Library.Word" "HOL-Library.Sublist"
begin

section \<open>Strings, thrown values and the effect trace\<close>

text \<open>
  A JavaScript string is a sequence of UTF-16 code units. String literals of the source
  are written \<open>js ''...''\<close>; characters outside ASCII are given by their code units.
\<close>

type_synonym jschar = "16 word"
type_synonym jsstring = "jschar list"

definition js :: "string \<Rightarrow> jsstring" where
  "js s = map of_char s"

text \<open>
  A thrown value is either an object that is \<open>instanceof Error\<close>, with its
  \<open>message\<close>, or a string, number or boolean, given by its \<open>String(v)\<close> rendering;
  the \<open>message\<close> property of the latter is \<open>undefined\<close>. The services of the
  model reject with \<open>Error\<close> objects; \<open>null\<close> and \<open>undefined\<close> are not thrown.
\<close>

datatype thrown = ErrorObj jsstring | NonError jsstring

fun messageOf :: "thrown \<Rightarrow> jsstring" where
  "messageOf (ErrorObj m) = m"
| "messageOf (NonError v) = js ''undefined''"

text \<open>The data returned by \<open>octokit.rest.repos.getContent\<close>: an object, with its
  \<open>content\<close> and \<open>encoding\<close> properties when it has them, or an array (a directory
  listing).\<close>

datatype content_response =
    ObjectData "jsstring option" "jsstring option"
  | ArrayData

record AiReview =
  executiveSummary :: jsstring
  detailedAnalysis :: jsstring
  recommendations :: jsstring
  score :: rat

record ReviewedFile =
  filePath :: jsstring
  oldFileContent :: jsstring
  newFileContent :: jsstring
  aiReview :: "AiReview option"
  aiError :: "jsstring option"

record SchemaReviewResult =
  reviewedFiles :: "ReviewedFile list"
  overallLowestScore :: rat
  lowScoreFile :: jsstring

text \<open>Everything the action does to the outside world, in the order it does it.\<close>

datatype effect =
    Info jsstring
  | Warning jsstring
  | ErrorLog jsstring
  | ConsoleError jsstring thrown
  | SetFailed jsstring
  | SetOutput jsstring jsstring
  | CallGetContent jsstring jsstring jsstring jsstring
  | CallListFiles jsstring jsstring nat
  | CallCreateComment jsstring jsstring nat jsstring
  | CallGenerateObject jsstring jsstring
  | CallReaddir jsstring

text \<open>
  The outside world. Each service answers a call from the history of effects so far and
  the call's arguments: it returns data or throws. The last five fields are built-in
  functions of the JavaScript runtime that the model leaves uninterpreted: the rendering
  of a number in a template literal, \<open>encodeURIComponent\<close>,
  \<open>Buffer.from(s, 'base64').toString('utf-8')\<close>, \<open>String.prototype.toLowerCase\<close> and
  \<open>parseInt(s, 10)\<close> (\<open>None\<close> is \<open>NaN\<close>).
\<close>

record world =
  repos_getContent :: "effect list \<Rightarrow> jsstring \<Rightarrow> jsstring \<Rightarrow> jsstring \<Rightarrow> jsstring \<Rightarrow> thrown + content_response"
  pulls_listFiles :: "effect list \<Rightarrow> jsstring \<Rightarrow> jsstring \<Rightarrow> nat \<Rightarrow> thrown + jsstring list"
  issues_createComment :: "effect list \<Rightarrow> jsstring \<Rightarrow> jsstring \<Rightarrow> nat \<Rightarrow> jsstring \<Rightarrow> thrown + unit"
  sdk_generateObject :: "effect list \<Rightarrow> jsstring \<Rightarrow> jsstring option \<Rightarrow> jsstring \<Rightarrow> thrown + AiReview"
  fs_readdir :: "effect list \<Rightarrow> jsstring \<Rightarrow> thrown + jsstring list"
  numberToString :: "rat \<Rightarrow> jsstring"
  encodeURIComponent :: "jsstring \<Rightarrow> jsstring"
  base64ToUtf8 :: "jsstring \<Rightarrow> jsstring"
  toLowerCase :: "jsstring \<Rightarrow> jsstring"
  parseInt10 :: "jsstring \<Rightarrow> int option"

text \<open>The action's inputs as \<open>core.getInput\<close> returns them (the empty string when an
  input is not set), and the \<open>OPENAI_API_KEY\<close> variable of the process environment.\<close>

record action_inputs =
  github_token :: jsstring
  failure_threshold :: jsstring
  task :: jsstring
  catalog_directory :: jsstring
  model :: jsstring
  OPENAI_API_KEY :: jsstring
  env_OPENAI_API_KEY :: "jsstring option"

subsection \<open>Computations that log effects and may throw\<close>

type_synonym 'a io = "effect list \<Rightarrow> (thrown + 'a) \<times> effect list"

definition ret :: "'a \<Rightarrow> 'a io" where
  "ret x = (\<lambda>tr. (Inr x, tr))"

definition throw :: "thrown \<Rightarrow> 'a io" where
  "throw e = (\<lambda>tr. (Inl e, tr))"

definition bind_io :: "'a io \<Rightarrow> ('a \<Rightarrow> 'b io) \<Rightarrow> 'b io" where
  "bind_io m f = (\<lambda>tr. case m tr of (Inl e, tr') \<Rightarrow> (Inl e, tr') | (Inr x, tr') \<Rightarrow> f x tr')"

definition then_io :: "unit io \<Rightarrow> 'b io \<Rightarrow> 'b io" where
  "then_io m n = bind_io m (\<lambda>_. n)"

definition try_catch :: "'a io \<Rightarrow> (thrown \<Rightarrow> 'a io) \<Rightarrow> 'a io" where
  "try_catch m h = (\<lambda>tr. case m tr of (Inl e, tr') \<Rightarrow> h e tr' | (Inr x, tr') \<Rightarrow> (Inr x, tr'))"

definition emit :: "effect \<Rightarrow> unit io" where
  "emit e = (\<lambda>tr. (Inr (), tr @ [e]))"

definition call :: "effect \<Rightarrow> (effect list \<Rightarrow> thrown + 'a) \<Rightarrow> 'a io" where
  "call e service = (\<lambda>tr. (service tr, tr @ [e]))"

section \<open>lib/github.ts: the content fetcher\<close>

definition getFileContentAtRef ::
  "world \<Rightarrow> jsstring \<Rightarrow> jsstring \<Rightarrow> jsstring \<Rightarrow> jsstring \<Rightarrow> jsstring io" where
  "getFileContentAtRef w owner repo path ref =
     try_catch
       (bind_io (call (CallGetContent owner repo path ref)
                   (\<lambda>tr. repos_getContent w tr owner repo path ref))
          (\<lambda>contentResponse.
             case contentResponse of
               ObjectData (Some content) encoding \<Rightarrow>
                 if content \<noteq> [] then
                   (if encoding = Some (js ''base64'') then ret (base64ToUtf8 w content)
                    else ret content)
                 else ret (js ''Could not retrieve content for this file.'')
             | ObjectData None encoding \<Rightarrow> ret (js ''Could not retrieve content for this file.'')
             | ArrayData \<Rightarrow> ret (js ''This is a directory, content not displayed.'')))
       (\<lambda>error.
          then_io
            (emit (Warning (js ''Failed to fetch content for '' @ path @ js '' at ref '' @ ref
                            @ js '': undefined'')))
            (ret (js ''Could not retrieve content (Error: '' @ messageOf error @ js '')'')))"

section \<open>lib/ai.ts: the model reviewer\<close>

text \<open>\<open>AiResponseSchema\<close>: the fields are strings and a number by their types; the schema
  adds \<open>score: z.number().min(0).max(100)\<close>.\<close>

definition AiResponseSchema :: "AiReview \<Rightarrow> bool" where
  "AiResponseSchema obj = (0 \<le> score obj \<and> score obj \<le> 100)"

text \<open>\<open>generateObject\<close> with \<open>schema: AiResponseSchema\<close>: the SDK throws when the
  object it got does not validate.\<close>

definition generateObject ::
  "world \<Rightarrow> jsstring \<Rightarrow> jsstring option \<Rightarrow> jsstring \<Rightarrow> AiReview io" where
  "generateObject w modelName apiKey promptText =
     bind_io (call (CallGenerateObject modelName promptText)
                (\<lambda>tr. sdk_generateObject w tr modelName apiKey promptText))
       (\<lambda>object. if AiResponseSchema object then ret object
                  else throw (ErrorObj (js ''response did not match schema'')))"

definition askAI :: "world \<Rightarrow> action_inputs \<Rightarrow> jsstring \<Rightarrow> AiReview io" where
  "askAI w inp promptText =
     try_catch
       (let modelName = (if model inp \<noteq> [] then model inp else js ''o4-mini'');
            apiKey = (if OPENAI_API_KEY inp \<noteq> [] then Some (OPENAI_API_KEY inp)
                      else env_OPENAI_API_KEY inp)
        in generateObject w modelName apiKey promptText)
       (\<lambda>error.
          then_io
            (emit (ConsoleError
                     (js ''Error calling AI model or processing structured output:'') error))
            (throw (ErrorObj
                     (js ''Failed to get a valid structured response from the AI model.''))))"

section \<open>tasks/schema-review.ts: the review orchestrator\<close>

definition promptForAI :: "jsstring \<Rightarrow> jsstring \<Rightarrow> jsstring \<Rightarrow> jsstring" where
  "promptForAI path old new =
     js ''Review the following changes to the file `'' @ path
     @ js ''`:\<newline>\<newline>Old version (from base branch):\<newline>```\<newline>'' @ old
     @ js ''\<newline>```\<newline>\<newline>New version (from this PR):\<newline>```\<newline>'' @ new
     @ js ''\<newline>```\<newline>\<newline>Please analyze these changes for potential issues, especially breaking changes if this is a schema or configuration file. Provide your assessment.''"

definition reviewSingleFile ::
  "world \<Rightarrow> action_inputs \<Rightarrow> jsstring \<Rightarrow> jsstring \<Rightarrow> jsstring \<Rightarrow> jsstring \<Rightarrow> jsstring
     \<Rightarrow> ReviewedFile io" where
  "reviewSingleFile w inp owner repo path baseSha headSha =
     then_io (emit (Info (js ''Performing schema review for file: '' @ path)))
    (bind_io (getFileContentAtRef w owner repo path baseSha) (\<lambda>old.
     bind_io (getFileContentAtRef w owner repo path headSha) (\<lambda>new.
     let reviewedFileEntry =
           \<lparr>filePath = path, oldFileContent = old, newFileContent = new,
            aiReview = None, aiError = None\<rparr>
     in try_catch
          (then_io (emit (Info (js ''Requesting AI review for '' @ path @ js ''...'')))
          (bind_io (askAI w inp (promptForAI path old new)) (\<lambda>review.
           then_io (emit (Info (js ''AI review received for '' @ path @ js '': Score ''
                                @ numberToString w (score review))))
             (ret (reviewedFileEntry\<lparr>aiReview := Some review\<rparr>)))))
          (\<lambda>error.
             let errorMessage = (case error of ErrorObj m \<Rightarrow> m | NonError v \<Rightarrow> v)
             in then_io (emit (ErrorLog (js ''AI review failed for '' @ path @ js '': ''
                                         @ errorMessage)))
                  (ret (reviewedFileEntry\<lparr>aiError := Some errorMessage\<rparr>))))))"

text \<open>One turn of the loop of \<open>performSchemaReview\<close>, on the three variables it updates.\<close>

definition review_step ::
  "ReviewedFile list \<times> rat \<times> jsstring \<Rightarrow> jsstring \<Rightarrow> ReviewedFile
     \<Rightarrow> ReviewedFile list \<times> rat \<times> jsstring" where
  "review_step acc path reviewedFileEntry =
     (case acc of (files, lowest, lowFile) \<Rightarrow>
        (case aiReview reviewedFileEntry of
           Some review \<Rightarrow>
             if score review < lowest then (files @ [reviewedFileEntry], score review, path)
             else (files @ [reviewedFileEntry], lowest, lowFile)
         | None \<Rightarrow> (files @ [reviewedFileEntry], lowest, lowFile)))"

primrec review_loop ::
  "world \<Rightarrow> action_inputs \<Rightarrow> jsstring \<Rightarrow> jsstring \<Rightarrow> jsstring \<Rightarrow> jsstring \<Rightarrow> jsstring list
     \<Rightarrow> ReviewedFile list \<times> rat \<times> jsstring \<Rightarrow> (ReviewedFile list \<times> rat \<times> jsstring) io" where
  "review_loop w inp owner repo baseSha headSha [] acc = ret acc"
| "review_loop w inp owner repo baseSha headSha (path # rest) acc =
     bind_io (reviewSingleFile w inp owner repo path baseSha headSha)
       (\<lambda>reviewedFileEntry.
          review_loop w inp owner repo baseSha headSha rest
            (review_step acc path reviewedFileEntry))"

definition performSchemaReview ::
  "world \<Rightarrow> action_inputs \<Rightarrow> jsstring \<Rightarrow> jsstring \<Rightarrow> jsstring list \<Rightarrow> jsstring \<Rightarrow> jsstring
     \<Rightarrow> SchemaReviewResult io" where
  "performSchemaReview w inp owner repo changedFilePaths baseSha headSha =
     bind_io (review_loop w inp owner repo baseSha headSha changedFilePaths ([], 100, []))
       (\<lambda>(files, lowest, lowFile).
          ret \<lparr>reviewedFiles = files, overallLowestScore = lowest, lowScoreFile = lowFile\<rparr>)"

section \<open>lib/github.ts: list normalization\<close>

text \<open>The code units that \<open>trim\<close>, \<open>trimStart\<close>, \<open>trimEnd\<close> strip and that \<open>\s\<close>
  matches: ECMAScript's WhiteSpace and LineTerminator.\<close>

definition is_ws :: "jschar \<Rightarrow> bool" where
  "is_ws c =
     (c \<in> {0x9, 0xA, 0xB, 0xC, 0xD, 0x20, 0xA0, 0x1680, 0x2028, 0x2029, 0x202F, 0x205F,
           0x3000, 0xFEFF}
      \<or> (0x2000 \<le> c \<and> c \<le> 0x200A))"

definition trimStart :: "jsstring \<Rightarrow> jsstring" where
  "trimStart s = dropWhile is_ws s"

definition trimEnd :: "jsstring \<Rightarrow> jsstring" where
  "trimEnd s = rev (dropWhile is_ws (rev s))"

definition trim :: "jsstring \<Rightarrow> jsstring" where
  "trim s = trimEnd (trimStart s)"

text \<open>\<open>s.split(sep)\<close> for a separator of one code unit.\<close>

fun split_sep :: "jschar \<Rightarrow> jsstring \<Rightarrow> jsstring list" where
  "split_sep sep [] = [[]]"
| "split_sep sep (c # cs) =
     (if c = sep then [] # split_sep sep cs
      else (case split_sep sep cs of l # ls \<Rightarrow> (c # l) # ls | [] \<Rightarrow> [[c]]))"

text \<open>\<open>xs.join(sep)\<close>.\<close>

fun join_sep :: "jsstring \<Rightarrow> jsstring list \<Rightarrow> jsstring" where
  "join_sep sep [] = []"
| "join_sep sep [x] = x"
| "join_sep sep (x # y # ys) = x @ sep @ join_sep sep (y # ys)"

subsection \<open>Regular expressions\<close>

text \<open>
  The regular expressions of the source have no back-reference and no look-around, so
  \<open>re.test(s)\<close> for an expression anchored with \<open>^\<close> asks whether some prefix of
  \<open>s\<close> belongs to the language of the expression. The test is computed with
  derivatives.
\<close>

datatype regex =
    NoMatch
  | EmptyStr
  | Class "jschar \<Rightarrow> bool"
  | Cat regex regex
  | Or regex regex
  | Many regex

definition Many1 :: "regex \<Rightarrow> regex" where
  "Many1 r = Cat r (Many r)"

primrec nullable :: "regex \<Rightarrow> bool" where
  "nullable NoMatch = False"
| "nullable EmptyStr = True"
| "nullable (Class P) = False"
| "nullable (Cat r s) = (nullable r \<and> nullable s)"
| "nullable (Or r s) = (nullable r \<or> nullable s)"
| "nullable (Many r) = True"

primrec deriv :: "jschar \<Rightarrow> regex \<Rightarrow> regex" where
  "deriv c NoMatch = NoMatch"
| "deriv c EmptyStr = NoMatch"
| "deriv c (Class P) = (if P c then EmptyStr else NoMatch)"
| "deriv c (Cat r s) =
     (if nullable r then Or (Cat (deriv c r) s) (deriv c s) else Cat (deriv c r) s)"
| "deriv c (Or r s) = Or (deriv c r) (deriv c s)"
| "deriv c (Many r) = Cat (deriv c r) (Many r)"

primrec test_from :: "jsstring \<Rightarrow> regex \<Rightarrow> bool" where
  "test_from [] r = nullable r"
| "test_from (c # cs) r = (nullable r \<or> test_from cs (deriv c r))"

definition regex_test :: "regex \<Rightarrow> jsstring \<Rightarrow> bool" where
  "regex_test r s = test_from s r"

text \<open>The character classes of \<open>listMarkerRegex\<close>, under its \<open>i\<close> flag: without the
  \<open>u\<close> flag a code unit from 128 on never matches an ASCII letter, so the letters match
  their two ASCII cases only.\<close>

definition is_bullet :: "jschar \<Rightarrow> bool" where
  "is_bullet c = (c \<in> {0x2A, 0x2D, 0x2B})"

definition is_o :: "jschar \<Rightarrow> bool" where
  "is_o c = (c \<in> {0x6F, 0x4F})"

definition is_digit :: "jschar \<Rightarrow> bool" where
  "is_digit c = (0x30 \<le> c \<and> c \<le> 0x39)"

definition is_roman :: "jschar \<Rightarrow> bool" where
  "is_roman c =
     (c \<in> {0x69, 0x76, 0x78, 0x6C, 0x63, 0x64, 0x6D, 0x49, 0x56, 0x58, 0x4C, 0x43, 0x44, 0x4D})"

definition is_dot :: "jschar \<Rightarrow> bool" where
  "is_dot c = (c = 0x2E)"

text \<open>\<^verbatim>\<open>/^\s*([*\-+]|o|[0-9]+\.|[ivxlcdm]+\.)\s+/i\<close>\<close>

definition listMarkerRegex :: regex where
  "listMarkerRegex =
     Cat (Many (Class is_ws))
      (Cat (Or (Class is_bullet)
           (Or (Class is_o)
           (Or (Cat (Many1 (Class is_digit)) (Class is_dot))
               (Cat (Many1 (Class is_roman)) (Class is_dot)))))
        (Many1 (Class is_ws)))"

subsection \<open>formatSectionAsBulletedList\<close>

text \<open>The callback of \<open>lines.forEach\<close>, on the two variables it updates:
  \<open>sectionString\<close> and \<open>hasActualContent\<close>.\<close>

definition format_line :: "jsstring \<times> bool \<Rightarrow> jsstring \<Rightarrow> jsstring \<times> bool" where
  "format_line acc line =
     (case acc of (sectionString, hasActualContent) \<Rightarrow>
        let originalLineWithPreservedIndentation = trimEnd line in
        if trim originalLineWithPreservedIndentation \<noteq> [] then
          (if regex_test listMarkerRegex originalLineWithPreservedIndentation
           then (sectionString @ originalLineWithPreservedIndentation @ js ''\<newline>'', True)
           else (sectionString @ js ''- '' @ trimStart originalLineWithPreservedIndentation
                   @ js ''\<newline>'', True))
        else (sectionString @ line @ js ''\<newline>'', hasActualContent))"

text \<open>\<open>content\<close> is \<open>string | undefined | null\<close>: \<open>None\<close> stands for the last two.\<close>

definition formatSectionAsBulletedList :: "world \<Rightarrow> jsstring \<Rightarrow> jsstring option \<Rightarrow> jsstring" where
  "formatSectionAsBulletedList w title content =
     (let sectionString = js ''### '' @ title @ js ''\<newline>'';
          notProvided = sectionString @ js ''No '' @ toLowerCase w title @ js '' provided.\<newline>''
      in (case content of
            None \<Rightarrow> notProvided
          | Some text \<Rightarrow>
              if text \<noteq> [] \<and> trim text \<noteq> [] then
                (case fold (\<lambda>line acc. format_line acc line) (split_sep 0xA text)
                        (sectionString, False) of
                   (sectionString', hasActualContent) \<Rightarrow>
                     if \<not> hasActualContent then
                       sectionString' @ js ''No '' @ toLowerCase w title
                         @ js '' provided (content was empty or whitespace only).\<newline>''
                     else sectionString')
              else notProvided)
         @ js ''\<newline>'')"

section \<open>lib/github.ts: change selection\<close>

record pull_request_payload =
  pr_number :: nat
  pr_head_sha :: jsstring
  pr_base_sha :: jsstring

text \<open>What the action reads of \<open>github.context\<close>.\<close>

record action_context =
  eventName :: jsstring
  payload_pull_request :: "pull_request_payload option"
  payload_comment_id :: "rat option"
  repo_owner :: jsstring
  repo_repo :: jsstring

text \<open>\<open>pulls_listFiles\<close> gives the \<open>filename\<close> of each file of the listing.
  \<open>catalogDirectory\<close> is \<open>string | undefined\<close>.\<close>

definition getChangedFiles ::
  "world \<Rightarrow> jsstring \<Rightarrow> jsstring \<Rightarrow> nat \<Rightarrow> jsstring option \<Rightarrow> jsstring list io" where
  "getChangedFiles w owner repo pullRequestNumber catalogDirectory =
     bind_io (call (CallListFiles owner repo pullRequestNumber)
                (\<lambda>tr. pulls_listFiles w tr owner repo pullRequestNumber))
       (\<lambda>changedFiles.
          case catalogDirectory of
            Some dir \<Rightarrow>
              if dir \<noteq> [] then
                then_io (emit (Info (js ''Filtering changed files for directory: '' @ dir)))
                  (ret (filter (\<lambda>file. prefix dir file) changedFiles))
              else ret changedFiles
          | None \<Rightarrow> ret changedFiles)"

definition noFilesChangedComment :: jsstring where
  "noFilesChangedComment =
     js ''## EventCatalog: Detected File Changes\<newline>\<newline>No files were changed in this pull request.''"

definition initialChecksAndGetChangedFiles ::
  "world \<Rightarrow> action_context \<Rightarrow> jsstring option \<Rightarrow> (jsstring list \<times> bool) io" where
  "initialChecksAndGetChangedFiles w ctx catalogDirectory =
     (if eventName ctx \<noteq> js ''pull_request'' then
        then_io (emit (SetFailed (js ''This action can only be run on pull_request events.'')))
          (ret ([], False))
      else
        (case payload_pull_request ctx of
           None \<Rightarrow>
             then_io (emit (SetFailed (js ''Pull request payload is missing.'')))
               (ret ([], False))
         | Some pr \<Rightarrow>
             bind_io (getChangedFiles w (repo_owner ctx) (repo_repo ctx) (pr_number pr)
                        catalogDirectory)
               (\<lambda>changedFilePaths.
                  let noFilter =
                        then_io (emit (Info (js ''No files changed in this pull request.'')))
                       (then_io
                          (call (CallCreateComment (repo_owner ctx) (repo_repo ctx)
                                   (pr_number pr) noFilesChangedComment)
                             (\<lambda>tr. issues_createComment w tr (repo_owner ctx) (repo_repo ctx)
                                      (pr_number pr) noFilesChangedComment))
                          (ret ([], False)))
                  in
                  if changedFilePaths = [] then
                    (case catalogDirectory of
                       Some dir \<Rightarrow>
                         if dir \<noteq> [] then
                           then_io
                             (emit (Info
                                (js ''No changed files found within the specified directory: ''
                                 @ dir @ js ''. Action will not comment.'')))
                             (ret ([], False))
                         else noFilter
                     | None \<Rightarrow> noFilter)
                  else ret (changedFilePaths, True))))"

section \<open>lib/github.ts: the report\<close>

text \<open>The value given to \<open>scorePrefix\<close>. The three emoji are written by their code
  units.\<close>

definition scorePrefix :: "rat \<Rightarrow> jsstring" where
  \<open>scorePrefix s =
     (if s < 25 then js ''<span style="color:red;">'' @ [0xD83D, 0xDEA8] @ js '' Danger</span> ''
      else if s < 75 then
        js ''<span style="color:orange;">'' @ [0x26A0, 0xFE0F] @ js '' Warning</span> ''
      else js ''<span style="color:green;">'' @ [0x2705] @ js '' Safe</span> '')\<close>

text \<open>The body of the loop of \<open>generateCommentBody\<close>: the text one file adds to
  \<open>commentBody\<close>. File paths are well-formed UTF-16, so \<open>encodeURIComponent\<close> returns.\<close>

definition comment_for_file ::
  "world \<Rightarrow> jsstring \<Rightarrow> jsstring \<Rightarrow> nat \<Rightarrow> ReviewedFile \<Rightarrow> jsstring" where
  "comment_for_file w owner repo pullRequestNumber reviewedFile =
     (let fileDiffLink =
            js ''https://github.com/'' @ owner @ js ''/'' @ repo @ js ''/pull/''
            @ numberToString w (of_nat pullRequestNumber) @ js ''/files#''
            @ encodeURIComponent w (filePath reviewedFile);
          fileLine =
            js ''<sub>File: ['' @ filePath reviewedFile @ js '']('' @ fileDiffLink
            @ js '')</sub>\<newline>\<newline>'';
          notAvailable = js ''*AI review data not available for this file.*\<newline>\<newline>''
      in case aiReview reviewedFile of
           Some review \<Rightarrow>
             js ''### **Score:** '' @ scorePrefix (score review)
               @ numberToString w (score review) @ js ''/100\<newline>\<newline>''
             @ fileLine
             @ js ''**Executive Summary:**\<newline>'' @ executiveSummary review
               @ js ''\<newline>\<newline>''
             @ formatSectionAsBulletedList w (js ''Detailed Analysis'')
                 (Some (detailedAnalysis review))
             @ formatSectionAsBulletedList w (js ''Recommendations'')
                 (Some (recommendations review))
         | None \<Rightarrow>
             fileLine
             @ js ''##### AI-Powered Review\<newline>''
             @ (case aiError reviewedFile of
                  Some message \<Rightarrow>
                    if message \<noteq> [] then
                      js ''*AI review could not be generated for this file. Error: '' @ message
                      @ js ''*\<newline>\<newline>''
                    else notAvailable
                | None \<Rightarrow> notAvailable))"

definition generateCommentBody ::
  "world \<Rightarrow> jsstring \<Rightarrow> jsstring \<Rightarrow> nat \<Rightarrow> ReviewedFile list \<Rightarrow> jsstring \<Rightarrow> jsstring
     \<Rightarrow> jsstring option \<Rightarrow> jsstring" where
  "generateCommentBody w owner repo pullRequestNumber files headSha baseSha catalogDirectory =
     fold (\<lambda>reviewedFile commentBody.
             commentBody @ comment_for_file w owner repo pullRequestNumber reviewedFile)
       files
       (js ''# EventCatalog: Schema Review\<newline>\<newline>''
        @ js ''The following files ''
        @ (case catalogDirectory of
             Some dir \<Rightarrow> if dir \<noteq> [] then js ''in '' @ [0x27] @ dir @ [0x27] @ js '' '' else []
           | None \<Rightarrow> [])
        @ js ''were modified in this pull request:\<newline>\<newline>'')"

section \<open>index.ts: the run\<close>

definition VALID_TASKS :: "jsstring list" where
  "VALID_TASKS = [js ''schema_review'', js ''config_review'']"

definition invalidThreshold :: jsstring where
  "invalidThreshold =
     js ''Invalid input for `failure_threshold`. Must be a number between 0 and 100.''"

text \<open>\<open>catalogDirectory || undefined\<close>\<close>

definition orUndefined :: "jsstring \<Rightarrow> jsstring option" where
  "orUndefined s = (if s \<noteq> [] then Some s else None)"

text \<open>
  The body of \<open>run\<close> is cut in three. \<open>run_checks\<close> is the part up to the early return
  on \<open>shouldContinue\<close>: it gives \<open>None\<close> where \<open>run\<close> returns early, and otherwise the
  threshold and the changed paths that the rest of \<open>run\<close> uses.
\<close>

definition run_checks :: "world \<Rightarrow> action_inputs \<Rightarrow> action_context \<Rightarrow> (int \<times> jsstring list) option io" where
  "run_checks w inp ctx =
     (if github_token inp = [] then
        throw (ErrorObj (js ''Input required and not supplied: github_token''))
      else
        let failureThreshold = parseInt10 w (failure_threshold inp);
            catalogDirectory = catalog_directory inp
        in
        if task inp \<notin> set VALID_TASKS then
          then_io (emit (SetFailed (js ''Invalid input for `task`. Must be one of: ''
                                    @ join_sep (js '', '') VALID_TASKS @ js ''.'')))
            (ret None)
        else
          then_io
            (if catalogDirectory \<noteq> [] then
               then_io (emit (Info (js ''Catalog directory: '' @ catalogDirectory)))
                 (bind_io (call (CallReaddir catalogDirectory)
                             (\<lambda>tr. fs_readdir w tr catalogDirectory))
                    (\<lambda>files. emit (Info (js ''Files in catalog directory: ''
                                           @ join_sep (js '', '') files))))
             else emit (Info (js ''No catalog directory specified.'')))
            (case failureThreshold of
               None \<Rightarrow> then_io (emit (SetFailed invalidThreshold)) (ret None)
             | Some threshold \<Rightarrow>
                 if threshold < 0 \<or> threshold > 100 then
                   then_io (emit (SetFailed invalidThreshold)) (ret None)
                 else
                   bind_io (initialChecksAndGetChangedFiles w ctx (orUndefined catalogDirectory))
                     (\<lambda>(changedFilePaths, shouldContinue).
                        if \<not> shouldContinue then ret None
                        else ret (Some (threshold, changedFilePaths)))))"

text \<open>The message of the threshold failure.\<close>

definition thresholdFailure :: "world \<Rightarrow> SchemaReviewResult \<Rightarrow> int \<Rightarrow> jsstring" where
  "thresholdFailure w reviewResult failureThreshold =
     js ''Action failed: File '' @ [0x27] @ lowScoreFile reviewResult @ [0x27]
     @ js '' received an AI review score of ''
     @ numberToString w (overallLowestScore reviewResult)
     @ js '', which is below the threshold of ''
     @ numberToString w (of_int failureThreshold) @ js ''.''"

text \<open>The end of \<open>run\<close>: the comment is posted, the output is set, the score is compared
  with the threshold.\<close>

definition comment_and_gate ::
  "world \<Rightarrow> action_context \<Rightarrow> jsstring \<Rightarrow> jsstring \<Rightarrow> nat \<Rightarrow> jsstring \<Rightarrow> SchemaReviewResult \<Rightarrow> int
     \<Rightarrow> unit io" where
  "comment_and_gate w ctx owner repo issueNumber commentBody reviewResult failureThreshold =
     then_io (call (CallCreateComment owner repo issueNumber commentBody)
                (\<lambda>tr. issues_createComment w tr owner repo issueNumber commentBody))
    (then_io (emit (SetOutput (js ''comment-url'')
                (js ''https://github.com/'' @ owner @ js ''/'' @ repo @ js ''/pull/''
                 @ numberToString w (of_nat issueNumber) @ js ''#issuecomment-''
                 @ (case payload_comment_id ctx of
                      None \<Rightarrow> js ''undefined''
                    | Some i \<Rightarrow> numberToString w i))))
       (if overallLowestScore reviewResult < of_int failureThreshold then
          emit (SetFailed (thresholdFailure w reviewResult failureThreshold))
        else ret ()))"

text \<open>The middle of \<open>run\<close>, from the reads of the context to the rendering of the
  comment. Reading \<open>head\<close> of a missing pull request payload throws a \<open>TypeError\<close>.\<close>

definition run_review ::
  "world \<Rightarrow> action_inputs \<Rightarrow> action_context \<Rightarrow> int \<Rightarrow> jsstring list \<Rightarrow> unit io" where
  "run_review w inp ctx failureThreshold changedFilePaths =
     (case payload_pull_request ctx of
        None \<Rightarrow>
          throw (ErrorObj (js ''Cannot read properties of undefined (reading '' @ [0x27]
                           @ js ''head'' @ [0x27] @ js '')''))
      | Some pr \<Rightarrow>
          then_io (emit (Info (js ''directory: '' @ catalog_directory inp)))
         (bind_io (performSchemaReview w inp (repo_owner ctx) (repo_repo ctx) changedFilePaths
                     (pr_base_sha pr) (pr_head_sha pr))
            (\<lambda>reviewResult.
               comment_and_gate w ctx (repo_owner ctx) (repo_repo ctx) (pr_number pr)
                 (generateCommentBody w (repo_owner ctx) (repo_repo ctx) (pr_number pr)
                    (reviewedFiles reviewResult) (pr_head_sha pr) (pr_base_sha pr)
                    (orUndefined (catalog_directory inp)))
                 reviewResult failureThreshold)))"

definition run :: "world \<Rightarrow> action_inputs \<Rightarrow> action_context \<Rightarrow> unit io" where
  "run w inp ctx =
     try_catch
       (bind_io (run_checks w inp ctx)
          (\<lambda>checked.
             case checked of
               None \<Rightarrow> ret ()
             | Some (failureThreshold, changedFilePaths) \<Rightarrow>
                 run_review w inp ctx failureThreshold changedFilePaths))
       (\<lambda>error. case error of ErrorObj message \<Rightarrow> emit (SetFailed message) | NonError v \<Rightarrow> ret ())"

section \<open>Notions the properties are stated with\<close>

text \<open>The scores of the outcomes that carry an assessment, in the order of the outcomes.\<close>

definition assessmentScores :: "ReviewedFile list \<Rightarrow> rat list" where
  "assessmentScores files = map score (List.map_filter aiReview files)"

text \<open>The outcome carries an assessment whose score is \<open>s\<close>.\<close>

definition hasScore :: "rat \<Rightarrow> ReviewedFile \<Rightarrow> bool" where
  "hasScore s r = (case aiReview r of Some review \<Rightarrow> score review = s | None \<Rightarrow> False)"

text \<open>The message of the only error \<open>askAI\<close> throws.\<close>

definition reviewerFailure :: jsstring where
  "reviewerFailure = js ''Failed to get a valid structured response from the AI model.''"

text \<open>An outcome as the orchestrator leaves it: a validated assessment and no failure
  reason, or no assessment and the reviewer's message as failure reason.\<close>

definition outcome_ok :: "ReviewedFile \<Rightarrow> bool" where
  "outcome_ok r = (case aiReview r of
       Some a \<Rightarrow> AiResponseSchema a \<and> aiError r = None
     | None \<Rightarrow> aiError r = Some reviewerFailure)"

text \<open>Every effect the computation adds to the trace satisfies \<open>P\<close>.\<close>

definition emits :: "(effect \<Rightarrow> bool) \<Rightarrow> 'a io \<Rightarrow> bool" where
  "emits P m = (\<forall>tr. \<exists>ev. snd (m tr) = tr @ ev \<and> list_all P ev)"

text \<open>The effects of a review: log lines, content fetches and model calls.\<close>

definition review_event :: "effect \<Rightarrow> bool" where
  "review_event e =
     (case e of
        Info m \<Rightarrow> True | Warning m \<Rightarrow> True | ErrorLog m \<Rightarrow> True | ConsoleError m t \<Rightarrow> True
      | CallGetContent a b c d \<Rightarrow> True | CallGenerateObject a b \<Rightarrow> True
      | _ \<Rightarrow> False)"

text \<open>The bodies of the comments posted and the messages of the failures set, in a
  trace; the calls a review makes.\<close>

fun comment_of :: "effect \<Rightarrow> jsstring option" where
  "comment_of (CallCreateComment owner repo n body) = Some body"
| "comment_of e = None"

fun failure_of :: "effect \<Rightarrow> jsstring option" where
  "failure_of (SetFailed m) = Some m"
| "failure_of e = None"

definition comments_posted :: "effect list \<Rightarrow> jsstring list" where
  "comments_posted ev = List.map_filter comment_of ev"

definition failures :: "effect list \<Rightarrow> jsstring list" where
  "failures ev = List.map_filter failure_of ev"

fun is_review_call :: "effect \<Rightarrow> bool" where
  "is_review_call (CallGenerateObject m p) = True"
| "is_review_call (CallGetContent a b c d) = True"
| "is_review_call e = False"

text \<open>The value of the \<open>comment-url\<close> output.\<close>

definition commentUrl :: "world \<Rightarrow> action_context \<Rightarrow> jsstring \<Rightarrow> jsstring \<Rightarrow> nat \<Rightarrow> jsstring" where
  "commentUrl w ctx owner repo issueNumber =
     js ''https://github.com/'' @ owner @ js ''/'' @ repo @ js ''/pull/''
     @ numberToString w (of_nat issueNumber) @ js ''#issuecomment-''
     @ (case payload_comment_id ctx of None \<Rightarrow> js ''undefined'' | Some i \<Rightarrow> numberToString w i)"

text \<open>The changed paths after the optional directory filter.\<close>

definition selected :: "jsstring option \<Rightarrow> jsstring list \<Rightarrow> jsstring list" where
  "selected catalogDirectory files =
     (case catalogDirectory of
        Some dir \<Rightarrow> if dir \<noteq> [] then filter (\<lambda>file. prefix dir file) files else files
      | None \<Rightarrow> files)"

text \<open>The three severity badges.\<close>

definition dangerBadge :: jsstring where
  \<open>dangerBadge = js ''<span style="color:red;">'' @ [0xD83D, 0xDEA8] @ js '' Danger</span> ''\<close>

definition warningBadge :: jsstring where
  \<open>warningBadge = js ''<span style="color:orange;">'' @ [0x26A0, 0xFE0F] @ js '' Warning</span> ''\<close>

definition safeBadge :: jsstring where
  \<open>safeBadge = js ''<span style="color:green;">'' @ [0x2705] @ js '' Safe</span> ''\<close>

text \<open>
  The language of a regular expression, to say what \<open>regex_test\<close> decides:
  \<open>repeats A\<close> is the set of concatenations of words of \<open>A\<close>, \<open>conc A B\<close> the set of
  words of \<open>A\<close> followed by words of \<open>B\<close>.
\<close>

inductive_set repeats :: "jsstring set \<Rightarrow> jsstring set" for A :: "jsstring set" where
  none: "[] \<in> repeats A"
| more: "u \<in> A \<Longrightarrow> v \<in> repeats A \<Longrightarrow> u @ v \<in> repeats A"

definition conc :: "jsstring set \<Rightarrow> jsstring set \<Rightarrow> jsstring set" where
  "conc A B = {u @ v | u v. u \<in> A \<and> v \<in> B}"

primrec lang :: "regex \<Rightarrow> jsstring set" where
  "lang NoMatch = {}"
| "lang EmptyStr = {[]}"
| "lang (Class P) = {[c] | c. P c}"
| "lang (Cat r s) = conc (lang r) (lang s)"
| "lang (Or r s) = lang r \<union> lang s"
| "lang (Many r) = repeats (lang r)"

text \<open>
  A list marker: one of \<open>*\<close>, \<open>-\<close>, \<open>+\<close>, \<open>o\<close>, \<open>O\<close>; or a numeral followed by a
  dot; or letters among \<open>ivxlcdm\<close>, in either case, followed by a dot.
\<close>

definition is_marker :: "jsstring \<Rightarrow> bool" where
  "is_marker mk =
     ((\<exists>c. mk = [c] \<and> (is_bullet c \<or> is_o c))
      \<or> (\<exists>ds. ds \<noteq> [] \<and> list_all is_digit ds \<and> mk = ds @ [0x2E])
      \<or> (\<exists>rs. rs \<noteq> [] \<and> list_all is_roman rs \<and> mk = rs @ [0x2E]))"

text \<open>The line starts, after optional whitespace, with a list marker that is followed by
  a whitespace character.\<close>

definition marker_then_space :: "jsstring \<Rightarrow> bool" where
  "marker_then_space l =
     (\<exists>ind mk sp rest. l = ind @ mk @ sp # rest \<and> list_all is_ws ind \<and> is_marker mk \<and> is_ws sp)"

text \<open>The line starts, after optional whitespace, with a list marker (whatever
  follows).\<close>

definition starts_with_marker :: "jsstring \<Rightarrow> bool" where
  "starts_with_marker l =
     (\<exists>ind mk rest. l = ind @ mk @ rest \<and> list_all is_ws ind \<and> is_marker mk)"

text \<open>
  The line that list normalization writes for a line of the text: a line of whitespace
  only as it is; a line that, without its trailing whitespace, starts with a marker
  followed by whitespace, without its trailing whitespace; any other line as a dash, a
  space and the line without its leading and trailing whitespace.
\<close>

definition normalized_line :: "jsstring \<Rightarrow> jsstring" where
  "normalized_line l =
     (if list_all is_ws l then l
      else if marker_then_space (trimEnd l) then trimEnd l
      else js ''- '' @ trimStart (trimEnd l))"

section \<open>A concrete world for the examples\<close>

text \<open>Decimal digits of a natural number, for the example world's number rendering.\<close>

fun decimal :: "nat \<Rightarrow> jsstring" where
  "decimal n = (if n < 10 then [48 + of_nat n] else decimal (n div 10) @ [48 + of_nat (n mod 10)])"

definition demo_review :: "rat \<Rightarrow> AiReview" where
  "demo_review s =
     \<lparr>executiveSummary = js ''Adds an optional field.'',
      detailedAnalysis = js ''Backward compatible.\<newline>- No consumer breaks.'',
      recommendations = js ''* Bump the minor version.'',
      score = s\<rparr>"

text \<open>
  The repository has a directory \<open>schemas\<close> and no file \<open>missing.json\<close>; every other
  path is a file. The pull request changed \<open>schemas/order.json\<close> and \<open>README.md\<close>.
  The model fails on \<open>bad.json\<close>, scores \<open>schemas/order.json\<close> 40 and every other
  file 80.
\<close>

definition demo_world :: world where
  "demo_world =
     \<lparr>repos_getContent = (\<lambda>tr owner repo path ref.
          if path = js ''schemas'' then Inr ArrayData
          else if path = js ''missing.json'' then Inl (ErrorObj (js ''Not Found''))
          else Inr (ObjectData (Some (js ''e30='')) (Some (js ''base64'')))),
      pulls_listFiles = (\<lambda>tr owner repo n. Inr [js ''schemas/order.json'', js ''README.md'']),
      issues_createComment = (\<lambda>tr owner repo n body. Inr ()),
      sdk_generateObject = (\<lambda>tr modelName apiKey promptText.
          if prefix (js ''Review the following changes to the file `bad.json`'') promptText
          then Inl (ErrorObj (js ''rate limited''))
          else if prefix (js ''Review the following changes to the file `schemas/order.json`'')
                    promptText
          then Inr (demo_review 40)
          else Inr (demo_review 80)),
      fs_readdir = (\<lambda>tr dir. Inr [js ''schemas'']),
      numberToString = (\<lambda>q. decimal (nat \<lfloor>q\<rfloor>)),
      encodeURIComponent = (\<lambda>s. s),
      base64ToUtf8 = (\<lambda>s. js ''{}''),
      toLowerCase = map (\<lambda>c. if 65 \<le> c \<and> c \<le> 90 then c + 32 else c),
      parseInt10 = (\<lambda>s. if s = js ''50'' then Some 50 else if s = js ''100'' then Some 100
                         else None)\<rparr>"

definition demo_inputs :: action_inputs where
  "demo_inputs =
     \<lparr>github_token = js ''t0ken'', failure_threshold = js ''50'', task = js ''schema_review'',
      catalog_directory = [], model = [], OPENAI_API_KEY = js ''k3y'',
      env_OPENAI_API_KEY = None\<rparr>"

text \<open>The pull request of the examples.\<close>

definition demo_context :: action_context where
  "demo_context =
     \<lparr>eventName = js ''pull_request'',
      payload_pull_request = Some \<lparr>pr_number = 7, pr_head_sha = js ''h34d'', pr_base_sha = js ''b4se''\<rparr>,
      payload_comment_id = None, repo_owner = js ''acme'', repo_repo = js ''catalog''\<rparr>"

text \<open>The same world with a pull request that changed no file.\<close>

definition quiet_world :: world where
  "quiet_world = demo_world\<lparr>pulls_listFiles := (\<lambda>tr owner repo n. Inr [])\<rparr>"

section \<open>Lemmas\<close>

lemmas io_defs = ret_def throw_def bind_io_def then_io_def try_catch_def emit_def call_def

lemma bind_io_ret: "bind_io (ret x) f = f x"
  by (simp add: io_defs)

lemma bind_io_assoc: "bind_io (bind_io m f) g = bind_io m (\<lambda>x. bind_io (f x) g)"
  by (auto simp: io_defs fun_eq_iff split: prod.splits sum.splits)

lemma getFileContentAtRef_returns:
  "\<exists>s tr'. getFileContentAtRef w owner repo path ref tr = (Inr s, tr')"
  by (auto simp: getFileContentAtRef_def io_defs
      split: sum.splits content_response.splits option.splits prod.splits)

lemma askAI_cases:
  "(\<exists>a tr'. askAI w inp p tr = (Inr a, tr') \<and> AiResponseSchema a)
   \<or> (\<exists>tr'. askAI w inp p tr = (Inl (ErrorObj reviewerFailure), tr'))"
  by (auto simp: askAI_def generateObject_def reviewerFailure_def io_defs Let_def
      split: sum.splits prod.splits)

lemma reviewSingleFile_returns:
  "\<exists>entry tr'. reviewSingleFile w inp owner repo path b h tr = (Inr entry, tr')
      \<and> filePath entry = path \<and> outcome_ok entry"
proof -
  obtain old t1 where g1:
    "getFileContentAtRef w owner repo path b
       (tr @ [Info (js ''Performing schema review for file: '' @ path)]) = (Inr old, t1)"
    using getFileContentAtRef_returns by blast
  obtain new t2 where g2: "getFileContentAtRef w owner repo path h t1 = (Inr new, t2)"
    using getFileContentAtRef_returns by blast
  show ?thesis
    using askAI_cases[of w inp "promptForAI path old new"
        "t2 @ [Info (js ''Requesting AI review for '' @ path @ js ''...'')]"]
    by (auto simp: reviewSingleFile_def io_defs g1 g2 Let_def outcome_ok_def)
qed

lemma review_loop_append:
  "review_loop w inp owner repo b h (ps @ qs) acc =
     bind_io (review_loop w inp owner repo b h ps acc) (review_loop w inp owner repo b h qs)"
  by (induction ps arbitrary: acc) (simp_all add: bind_io_ret bind_io_assoc)

lemma Min_insert_insert:
  fixes a :: rat
  assumes "finite S"
  shows "Min (insert a (insert b S)) = Min (insert (min a b) S)"
proof (cases "S = {}")
  case True
  then show ?thesis by (simp add: min_def)
next
  case False
  with assms show ?thesis by (simp add: min.assoc)
qed

lemma assessmentScores_Cons:
  "assessmentScores (e # es) =
     (case aiReview e of Some a \<Rightarrow> score a # assessmentScores es | None \<Rightarrow> assessmentScores es)"
  by (simp add: assessmentScores_def split: option.splits)

lemma assessmentScores_Nil: "assessmentScores [] = []"
  by (simp add: assessmentScores_def)

lemma hasScore_None: "aiReview e = None \<Longrightarrow> hasScore s e = False"
  by (simp add: hasScore_def)

lemma hasScore_Some: "aiReview e = Some a \<Longrightarrow> hasScore s e = (score a = s)"
  by (simp add: hasScore_def)

text \<open>The invariant of the loop of \<open>performSchemaReview\<close>, from any values of its three
  variables.\<close>

lemma review_loop_inv:
  "\<exists>new low' lf' tr'.
      review_loop w inp owner repo b h paths (files, low, lf) tr = (Inr (files @ new, low', lf'), tr')
    \<and> map filePath new = paths \<and> list_all outcome_ok new
    \<and> low' = Min (insert low (set (assessmentScores new)))
    \<and> (low' < low \<longrightarrow> map_option filePath (find (hasScore low') new) = Some lf')
    \<and> (\<not> low' < low \<longrightarrow> lf' = lf)"
proof (induction paths arbitrary: files low lf tr)
  case Nil
  show ?case by (simp add: io_defs assessmentScores_Nil)
next
  case (Cons p ps)
  obtain e t1 where e: "reviewSingleFile w inp owner repo p b h tr = (Inr e, t1)"
    "filePath e = p" "outcome_ok e"
    using reviewSingleFile_returns by blast
  show ?case
  proof (cases "aiReview e")
    case None
    then have step: "review_step (files, low, lf) p e = (files @ [e], low, lf)"
      by (simp add: review_step_def)
    from Cons.IH[of "files @ [e]" low lf t1] obtain new low' lf' tr' where
      ih: "review_loop w inp owner repo b h ps (files @ [e], low, lf) t1
             = (Inr ((files @ [e]) @ new, low', lf'), tr')"
      "map filePath new = ps" "list_all outcome_ok new"
      "low' = Min (insert low (set (assessmentScores new)))"
      "low' < low \<longrightarrow> map_option filePath (find (hasScore low') new) = Some lf'"
      "\<not> low' < low \<longrightarrow> lf' = lf"
      by blast
    show ?thesis
      apply (rule exI[of _ "e # new"], rule exI[of _ low'], rule exI[of _ lf'], rule exI[of _ tr'])
      using ih e None
      by (simp add: bind_io_def step assessmentScores_Cons hasScore_None)
  next
    case (Some a)
    show ?thesis
    proof (cases "score a < low")
      case True
      then have step: "review_step (files, low, lf) p e = (files @ [e], score a, p)"
        using Some by (simp add: review_step_def)
      from Cons.IH[of "files @ [e]" "score a" p t1] obtain new low' lf' tr' where
        ih: "review_loop w inp owner repo b h ps (files @ [e], score a, p) t1
               = (Inr ((files @ [e]) @ new, low', lf'), tr')"
        "map filePath new = ps" "list_all outcome_ok new"
        "low' = Min (insert (score a) (set (assessmentScores new)))"
        "low' < score a \<longrightarrow> map_option filePath (find (hasScore low') new) = Some lf'"
        "\<not> low' < score a \<longrightarrow> lf' = p"
        by blast
      have le: "low' \<le> score a" using ih(4) by simp
      have "Min (insert low (insert (score a) (set (assessmentScores new))))
              = Min (insert (min low (score a)) (set (assessmentScores new)))"
        by (rule Min_insert_insert) simp
      moreover have "min low (score a) = score a" using True by simp
      ultimately have m:
        "Min (insert low (insert (score a) (set (assessmentScores new)))) = low'"
        using ih(4) by simp
      show ?thesis
        apply (rule exI[of _ "e # new"], rule exI[of _ low'], rule exI[of _ lf'], rule exI[of _ tr'])
        using ih(1,2,3,5,6) e Some True le m
        by (auto simp: bind_io_def step assessmentScores_Cons hasScore_Some)
    next
      case False
      then have step: "review_step (files, low, lf) p e = (files @ [e], low, lf)"
        using Some by (simp add: review_step_def)
      from Cons.IH[of "files @ [e]" low lf t1] obtain new low' lf' tr' where
        ih: "review_loop w inp owner repo b h ps (files @ [e], low, lf) t1
               = (Inr ((files @ [e]) @ new, low', lf'), tr')"
        "map filePath new = ps" "list_all outcome_ok new"
        "low' = Min (insert low (set (assessmentScores new)))"
        "low' < low \<longrightarrow> map_option filePath (find (hasScore low') new) = Some lf'"
        "\<not> low' < low \<longrightarrow> lf' = lf"
        by blast
      have le: "low' \<le> low" using ih(4) by simp
      have "Min (insert low (insert (score a) (set (assessmentScores new))))
              = Min (insert (min low (score a)) (set (assessmentScores new)))"
        by (rule Min_insert_insert) simp
      moreover have "min low (score a) = low" using False by simp
      ultimately have m:
        "Min (insert low (insert (score a) (set (assessmentScores new)))) = low'"
        using ih(4) by simp
      show ?thesis
        apply (rule exI[of _ "e # new"], rule exI[of _ low'], rule exI[of _ lf'], rule exI[of _ tr'])
        using ih(1,2,3,5,6) e Some False le m
        by (auto simp: bind_io_def step assessmentScores_Cons hasScore_Some)
    qed
  qed
qed

lemma scores_le_100:
  "list_all outcome_ok files \<Longrightarrow> s \<in> set (assessmentScores files) \<Longrightarrow> 0 \<le> s \<and> s \<le> 100"
  by (induction files)
    (auto simp: assessmentScores_Cons assessmentScores_Nil outcome_ok_def AiResponseSchema_def
      split: option.splits)

text \<open>What \<open>performSchemaReview\<close> returns, from the invariant at the initial values.\<close>

lemma performSchemaReview_result:
  "\<exists>res tr'.
      performSchemaReview w inp owner repo paths b h tr = (Inr res, tr')
    \<and> map filePath (reviewedFiles res) = paths \<and> list_all outcome_ok (reviewedFiles res)
    \<and> overallLowestScore res = Min (insert 100 (set (assessmentScores (reviewedFiles res))))
    \<and> (overallLowestScore res < 100 \<longrightarrow>
         map_option filePath (find (hasScore (overallLowestScore res)) (reviewedFiles res))
           = Some (lowScoreFile res))
    \<and> (\<not> overallLowestScore res < 100 \<longrightarrow> lowScoreFile res = [])"
proof -
  from review_loop_inv[of w inp owner repo b h paths "[]" 100 "[]" tr]
  obtain new low' lf' tr' where
    "review_loop w inp owner repo b h paths ([], 100, []) tr = (Inr (new, low', lf'), tr')"
    "map filePath new = paths" "list_all outcome_ok new"
    "low' = Min (insert 100 (set (assessmentScores new)))"
    "low' < 100 \<longrightarrow> map_option filePath (find (hasScore low') new) = Some lf'"
    "\<not> low' < 100 \<longrightarrow> lf' = []"
    by auto
  then show ?thesis
    by (simp add: performSchemaReview_def bind_io_def ret_def)
qed

lemma emits_ret: "emits P (ret x)"
  by (simp add: emits_def ret_def)

lemma emits_throw: "emits P (throw e)"
  by (simp add: emits_def throw_def)

lemma emits_emit: "P e \<Longrightarrow> emits P (emit e)"
  by (simp add: emits_def emit_def)

lemma emits_call: "P e \<Longrightarrow> emits P (call e f)"
  by (simp add: emits_def call_def)

lemma emits_bind: 
  assumes "emits P m" "\<And>x. emits P (f x)"
  shows "emits P (bind_io m f)"
  unfolding emits_def
proof
  fix tr
  obtain ev where ev: "snd (m tr) = tr @ ev" "list_all P ev"
    using assms(1) unfolding emits_def by blast
  show "\<exists>ev. snd (bind_io m f tr) = tr @ ev \<and> list_all P ev"
  proof (cases "m tr")
    case (Pair r t)
    then have t: "t = tr @ ev" using ev by simp
    show ?thesis
    proof (cases r)
      case (Inl e)
      then show ?thesis using Pair t ev by (auto simp: bind_io_def)
    next
      case (Inr x)
      obtain ev2 where "snd (f x t) = t @ ev2" "list_all P ev2"
        using assms(2)[of x] unfolding emits_def by blast
      then show ?thesis using Pair Inr t ev
        by (intro exI[of _ "ev @ ev2"]) (simp add: bind_io_def)
    qed
  qed
qed

lemma emits_then: "emits P m \<Longrightarrow> emits P n \<Longrightarrow> emits P (then_io m n)"
  by (simp add: then_io_def emits_bind)

lemma emits_try: 
  assumes "emits P m" "\<And>e. emits P (h e)"
  shows "emits P (try_catch m h)"
  unfolding emits_def
proof
  fix tr
  obtain ev where ev: "snd (m tr) = tr @ ev" "list_all P ev"
    using assms(1) unfolding emits_def by blast
  show "\<exists>ev. snd (try_catch m h tr) = tr @ ev \<and> list_all P ev"
  proof (cases "m tr")
    case (Pair r t)
    then have t: "t = tr @ ev" using ev by simp
    show ?thesis
    proof (cases r)
      case (Inr x)
      then show ?thesis using Pair t ev by (auto simp: try_catch_def)
    next
      case (Inl e)
      obtain ev2 where "snd (h e t) = t @ ev2" "list_all P ev2"
        using assms(2)[of e] unfolding emits_def by blast
      then show ?thesis using Pair Inl t ev
        by (intro exI[of _ "ev @ ev2"]) (simp add: try_catch_def)
    qed
  qed
qed

lemmas emits_intros = emits_ret emits_throw emits_emit emits_call emits_bind emits_then emits_try

lemma getFileContentAtRef_emits: "emits review_event (getFileContentAtRef w owner repo path ref)"
  unfolding getFileContentAtRef_def
  by (intro emits_intros) (auto simp: review_event_def intro!: emits_intros split: content_response.splits option.splits)

lemma askAI_emits: "emits review_event (askAI w inp p)"
  unfolding askAI_def generateObject_def Let_def
  by (intro emits_intros) (auto simp: review_event_def intro!: emits_intros)

lemma reviewSingleFile_emits: "emits review_event (reviewSingleFile w inp owner repo path b h)"
  unfolding reviewSingleFile_def Let_def
  by (intro emits_intros getFileContentAtRef_emits askAI_emits) (auto simp: review_event_def)

lemma review_loop_emits: "emits review_event (review_loop w inp owner repo b h paths acc)"
proof (induction paths arbitrary: acc)
  case Nil
  show ?case by (simp add: emits_ret)
next
  case (Cons p ps)
  show ?case
    unfolding review_loop.simps
    by (rule emits_bind[OF reviewSingleFile_emits]) (rule Cons.IH)
qed

lemma performSchemaReview_emits: "emits review_event (performSchemaReview w inp owner repo paths b h)"
  unfolding performSchemaReview_def
  by (intro emits_intros review_loop_emits) (auto intro!: emits_intros)

lemma comments_posted_simps [simp]:
  "comments_posted [] = []"
  "comments_posted (e # es) =
     (case comment_of e of Some b \<Rightarrow> b # comments_posted es | None \<Rightarrow> comments_posted es)"
  by (simp_all add: comments_posted_def split: option.splits)

lemma failures_simps [simp]:
  "failures [] = []"
  "failures (e # es) = (case failure_of e of Some m \<Rightarrow> m # failures es | None \<Rightarrow> failures es)"
  by (simp_all add: failures_def split: option.splits)

lemma review_events_quiet:
  "list_all review_event ev \<Longrightarrow> comments_posted ev = [] \<and> failures ev = []"
  by (induction ev) (auto simp: comments_posted_def failures_def review_event_def split: effect.splits)

lemma run_checks_Some:
  assumes "run_checks w inp ctx tr = (Inr (Some (t, paths)), tr0)"
  shows "0 \<le> t \<and> t \<le> 100 \<and> paths \<noteq> [] \<and> (\<exists>pr. payload_pull_request ctx = Some pr)
     \<and> (\<exists>ev. tr0 = tr @ ev \<and> comments_posted ev = [] \<and> failures ev = [] \<and> list_all (\<lambda>e. \<not> is_review_call e) ev)"
  using assms
  by (auto simp: run_checks_def initialChecksAndGetChangedFiles_def getChangedFiles_def io_defs Let_def
      orUndefined_def
      split: if_splits sum.splits option.splits prod.splits)

lemma comment_and_gate_eq:
  "comment_and_gate w ctx owner repo n body res t tr =
     (case issues_createComment w tr owner repo n body of
        Inl e \<Rightarrow> (Inl e, tr @ [CallCreateComment owner repo n body])
      | Inr u \<Rightarrow>
          (Inr (), tr @ [CallCreateComment owner repo n body,
                         SetOutput (js ''comment-url'') (commentUrl w ctx owner repo n)]
                   @ (if overallLowestScore res < of_int t
                      then [SetFailed (thresholdFailure w res t)] else [])))"
  by (simp add: comment_and_gate_def commentUrl_def io_defs split: sum.splits)

lemma performSchemaReview_trace:
  "\<exists>ev. snd (performSchemaReview w inp owner repo paths b h tr) = tr @ ev
     \<and> comments_posted ev = [] \<and> failures ev = []"
  using performSchemaReview_emits[of w inp owner repo paths b h] review_events_quiet
  unfolding emits_def by blast

lemma comments_posted_append: "comments_posted (a @ b) = comments_posted a @ comments_posted b"
  by (induction a) (simp_all split: option.splits)

lemma failures_append: "failures (a @ b) = failures a @ failures b"
  by (induction a) (simp_all split: option.splits)

lemma run_after_checks:
  assumes "run_checks w inp ctx tr = (Inr (Some (t, paths)), tr0)"
  shows "\<exists>pr res tr1 ev.
      payload_pull_request ctx = Some pr \<and> 0 \<le> t \<and> t \<le> 100
    \<and> performSchemaReview w inp (repo_owner ctx) (repo_repo ctx) paths (pr_base_sha pr)
         (pr_head_sha pr) (tr0 @ [Info (js ''directory: '' @ catalog_directory inp)])
        = (Inr res, tr1)
    \<and> tr1 = tr @ ev \<and> comments_posted ev = [] \<and> failures ev = []
    \<and> snd (run w inp ctx tr) =
        snd (try_catch
          (comment_and_gate w ctx (repo_owner ctx) (repo_repo ctx) (pr_number pr)
            (generateCommentBody w (repo_owner ctx) (repo_repo ctx) (pr_number pr)
               (reviewedFiles res) (pr_head_sha pr) (pr_base_sha pr)
               (orUndefined (catalog_directory inp)))
            res t)
          (\<lambda>error. case error of ErrorObj message \<Rightarrow> emit (SetFailed message)
                                | NonError v \<Rightarrow> ret ()) tr1)"
proof -
  from run_checks_Some[OF assms] obtain pr ev0 where
    c: "0 \<le> t" "t \<le> 100" "payload_pull_request ctx = Some pr" "tr0 = tr @ ev0"
       "comments_posted ev0 = []" "failures ev0 = []"
    by blast
  let ?tr0' = "tr0 @ [Info (js ''directory: '' @ catalog_directory inp)]"
  obtain res tr1 where r:
    "performSchemaReview w inp (repo_owner ctx) (repo_repo ctx) paths (pr_base_sha pr)
       (pr_head_sha pr) ?tr0' = (Inr res, tr1)"
    using performSchemaReview_result by blast
  obtain ev1 where e1: "tr1 = ?tr0' @ ev1" "comments_posted ev1 = []" "failures ev1 = []"
    using performSchemaReview_trace[of w inp "repo_owner ctx" "repo_repo ctx" paths
        "pr_base_sha pr" "pr_head_sha pr" ?tr0'] r by auto
  have ev: "tr1 = tr @ (ev0 @ [Info (js ''directory: '' @ catalog_directory inp)] @ ev1)"
    using e1(1) c(4) by simp
  have q: "comments_posted (ev0 @ [Info (js ''directory: '' @ catalog_directory inp)] @ ev1) = []"
    "failures (ev0 @ [Info (js ''directory: '' @ catalog_directory inp)] @ ev1) = []"
    using c(5,6) e1(2,3)
    by (simp_all add: comments_posted_append failures_append)
  have "snd (run w inp ctx tr) =
        snd (try_catch
          (comment_and_gate w ctx (repo_owner ctx) (repo_repo ctx) (pr_number pr)
            (generateCommentBody w (repo_owner ctx) (repo_repo ctx) (pr_number pr)
               (reviewedFiles res) (pr_head_sha pr) (pr_base_sha pr)
               (orUndefined (catalog_directory inp)))
            res t)
          (\<lambda>error. case error of ErrorObj message \<Rightarrow> emit (SetFailed message)
                                | NonError v \<Rightarrow> ret ()) tr1)"
    using assms c(3) r
    by (simp add: run_def run_review_def try_catch_def bind_io_def then_io_def emit_def
        split: prod.splits sum.splits)
  then show ?thesis using c r ev q by blast
qed

lemma run_gate_trace:
  assumes "run_checks w inp ctx tr = (Inr (Some (t, paths)), tr0)"
  shows "\<exists>pr res tr1 ev.
      payload_pull_request ctx = Some pr \<and> 0 \<le> t \<and> t \<le> 100
    \<and> performSchemaReview w inp (repo_owner ctx) (repo_repo ctx) paths (pr_base_sha pr)
         (pr_head_sha pr) (tr0 @ [Info (js ''directory: '' @ catalog_directory inp)])
        = (Inr res, tr1)
    \<and> tr1 = tr @ ev \<and> comments_posted ev = [] \<and> failures ev = []
    \<and> snd (run w inp ctx tr) =
        tr1 @ CallCreateComment (repo_owner ctx) (repo_repo ctx) (pr_number pr)
                (generateCommentBody w (repo_owner ctx) (repo_repo ctx) (pr_number pr)
                   (reviewedFiles res) (pr_head_sha pr) (pr_base_sha pr)
                   (orUndefined (catalog_directory inp)))
          # (case issues_createComment w tr1 (repo_owner ctx) (repo_repo ctx) (pr_number pr)
                    (generateCommentBody w (repo_owner ctx) (repo_repo ctx) (pr_number pr)
                       (reviewedFiles res) (pr_head_sha pr) (pr_base_sha pr)
                       (orUndefined (catalog_directory inp))) of
               Inl e \<Rightarrow> (case e of ErrorObj m \<Rightarrow> [SetFailed m] | NonError v \<Rightarrow> [])
             | Inr u \<Rightarrow>
                 SetOutput (js ''comment-url'')
                   (commentUrl w ctx (repo_owner ctx) (repo_repo ctx) (pr_number pr))
                 # (if overallLowestScore res < of_int t
                    then [SetFailed (thresholdFailure w res t)] else []))"
proof -
  from run_after_checks[OF assms] obtain pr res tr1 ev where
    a: "payload_pull_request ctx = Some pr" "0 \<le> t" "t \<le> 100"
     "performSchemaReview w inp (repo_owner ctx) (repo_repo ctx) paths (pr_base_sha pr)
         (pr_head_sha pr) (tr0 @ [Info (js ''directory: '' @ catalog_directory inp)])
        = (Inr res, tr1)"
     "tr1 = tr @ ev" "comments_posted ev = []" "failures ev = []"
     "snd (run w inp ctx tr) =
        snd (try_catch
          (comment_and_gate w ctx (repo_owner ctx) (repo_repo ctx) (pr_number pr)
            (generateCommentBody w (repo_owner ctx) (repo_repo ctx) (pr_number pr)
               (reviewedFiles res) (pr_head_sha pr) (pr_base_sha pr)
               (orUndefined (catalog_directory inp)))
            res t)
          (\<lambda>error. case error of ErrorObj message \<Rightarrow> emit (SetFailed message)
                                | NonError v \<Rightarrow> ret ()) tr1)"
    by blast
  have "snd (run w inp ctx tr) =
        tr1 @ CallCreateComment (repo_owner ctx) (repo_repo ctx) (pr_number pr)
                (generateCommentBody w (repo_owner ctx) (repo_repo ctx) (pr_number pr)
                   (reviewedFiles res) (pr_head_sha pr) (pr_base_sha pr)
                   (orUndefined (catalog_directory inp)))
          # (case issues_createComment w tr1 (repo_owner ctx) (repo_repo ctx) (pr_number pr)
                    (generateCommentBody w (repo_owner ctx) (repo_repo ctx) (pr_number pr)
                       (reviewedFiles res) (pr_head_sha pr) (pr_base_sha pr)
                       (orUndefined (catalog_directory inp))) of
               Inl e \<Rightarrow> (case e of ErrorObj m \<Rightarrow> [SetFailed m] | NonError v \<Rightarrow> [])
             | Inr u \<Rightarrow>
                 SetOutput (js ''comment-url'')
                   (commentUrl w ctx (repo_owner ctx) (repo_repo ctx) (pr_number pr))
                 # (if overallLowestScore res < of_int t
                    then [SetFailed (thresholdFailure w res t)] else []))"
    unfolding a(8) comment_and_gate_eq
    by (simp add: try_catch_def emit_def ret_def split: sum.splits thrown.splits)
  then show ?thesis using a(1-7) by blast
qed

lemma initialChecks_empty:
  assumes "eventName ctx = js ''pull_request''" "payload_pull_request ctx = Some pr"
    and "pulls_listFiles w tr (repo_owner ctx) (repo_repo ctx) (pr_number pr) = Inr files"
    and "selected dir files = []"
  shows "initialChecksAndGetChangedFiles w ctx dir tr =
     (case dir of
        Some d \<Rightarrow>
          if d \<noteq> [] then
            (Inr ([], False),
             tr @ [CallListFiles (repo_owner ctx) (repo_repo ctx) (pr_number pr),
                   Info (js ''Filtering changed files for directory: '' @ d),
                   Info (js ''No changed files found within the specified directory: '' @ d
                         @ js ''. Action will not comment.'')])
          else
            (map_sum id (\<lambda>u. ([], False))
               (issues_createComment w
                  (tr @ [CallListFiles (repo_owner ctx) (repo_repo ctx) (pr_number pr),
                         Info (js ''No files changed in this pull request.'')])
                  (repo_owner ctx) (repo_repo ctx) (pr_number pr) noFilesChangedComment),
             tr @ [CallListFiles (repo_owner ctx) (repo_repo ctx) (pr_number pr),
                   Info (js ''No files changed in this pull request.''),
                   CallCreateComment (repo_owner ctx) (repo_repo ctx) (pr_number pr)
                     noFilesChangedComment])
      | None \<Rightarrow>
            (map_sum id (\<lambda>u. ([], False))
               (issues_createComment w
                  (tr @ [CallListFiles (repo_owner ctx) (repo_repo ctx) (pr_number pr),
                         Info (js ''No files changed in this pull request.'')])
                  (repo_owner ctx) (repo_repo ctx) (pr_number pr) noFilesChangedComment),
             tr @ [CallListFiles (repo_owner ctx) (repo_repo ctx) (pr_number pr),
                   Info (js ''No files changed in this pull request.''),
                   CallCreateComment (repo_owner ctx) (repo_repo ctx) (pr_number pr)
                     noFilesChangedComment]))"
  using assms
  by (auto simp: initialChecksAndGetChangedFiles_def getChangedFiles_def io_defs selected_def
      Let_def split: option.splits sum.splits if_splits)

lemma initialChecks_stops:
  assumes "eventName ctx = js ''pull_request''" "payload_pull_request ctx = Some pr"
    and "pulls_listFiles w tr (repo_owner ctx) (repo_repo ctx) (pr_number pr) = Inr files"
    and "selected dir files = []"
  shows "\<exists>r evs. initialChecksAndGetChangedFiles w ctx dir tr = (r, tr @ evs)
      \<and> (r = Inr ([], False) \<or> (\<exists>e. r = Inl e))
      \<and> list_all (\<lambda>e. \<not> is_review_call e) evs
      \<and> failures evs = []
      \<and> comments_posted evs =
           (if dir \<noteq> None \<and> dir \<noteq> Some [] then [] else [noFilesChangedComment])"
  unfolding initialChecks_empty[OF assms]
  by (cases "issues_createComment w
                  (tr @ [CallListFiles (repo_owner ctx) (repo_repo ctx) (pr_number pr),
                         Info (js ''No files changed in this pull request.'')])
                  (repo_owner ctx) (repo_repo ctx) (pr_number pr) noFilesChangedComment")
    (auto split: option.splits)

lemma run_checks_stops:
  assumes ev: "eventName ctx = js ''pull_request''" and pr: "payload_pull_request ctx = Some pr"
    and H: "\<And>h. \<exists>files. pulls_listFiles w h (repo_owner ctx) (repo_repo ctx) (pr_number pr) = Inr files
              \<and> selected (orUndefined (catalog_directory inp)) files = []"
  shows "\<exists>r evs. run_checks w inp ctx tr = (r, tr @ evs)
      \<and> (r = Inr None \<or> (\<exists>e. r = Inl e))
      \<and> list_all (\<lambda>e. \<not> is_review_call e) evs
      \<and> (catalog_directory inp \<noteq> [] \<longrightarrow> comments_posted evs = [])
      \<and> (catalog_directory inp = [] \<and> github_token inp \<noteq> [] \<and> task inp \<in> set VALID_TASKS
           \<and> (\<exists>t. parseInt10 w (failure_threshold inp) = Some t \<and> 0 \<le> t \<and> t \<le> 100)
          \<longrightarrow> comments_posted evs = [noFilesChangedComment] \<and> (r = Inr None \<longrightarrow> failures evs = []))"
proof -
  have ic: "\<exists>r evs. initialChecksAndGetChangedFiles w ctx (orUndefined (catalog_directory inp)) h = (r, h @ evs)
      \<and> (r = Inr ([], False) \<or> (\<exists>e. r = Inl e))
      \<and> list_all (\<lambda>e. \<not> is_review_call e) evs
      \<and> failures evs = []
      \<and> comments_posted evs =
           (if catalog_directory inp \<noteq> [] then [] else [noFilesChangedComment])" for h
  proof -
    obtain files where f: "pulls_listFiles w h (repo_owner ctx) (repo_repo ctx) (pr_number pr) = Inr files"
      "selected (orUndefined (catalog_directory inp)) files = []"
      using H by blast
    show ?thesis
      using initialChecks_stops[OF ev pr f] by (auto simp: orUndefined_def split: if_splits)
  qed
  show ?thesis
  proof (cases "github_token inp = []")
    case True
    then show ?thesis by (simp add: run_checks_def throw_def)
  next
    case tok: False
    show ?thesis
    proof (cases "task inp \<in> set VALID_TASKS")
      case False
      then show ?thesis using tok
        by (simp add: run_checks_def io_defs Let_def)
    next
      case task: True
      show ?thesis
      proof (cases "catalog_directory inp = []")
        case nodir: True
        let ?h = "tr @ [Info (js ''No catalog directory specified.'')]"
        from ic[of ?h] obtain r evs where
          i: "initialChecksAndGetChangedFiles w ctx (orUndefined (catalog_directory inp)) ?h = (r, ?h @ evs)"
          "r = Inr ([], False) \<or> (\<exists>e. r = Inl e)"
          "list_all (\<lambda>e. \<not> is_review_call e) evs" "failures evs = []"
          "comments_posted evs = [noFilesChangedComment]"
          using nodir by auto
        show ?thesis
        proof (cases "parseInt10 w (failure_threshold inp)")
          case None
          then show ?thesis using tok task nodir
            by (simp add: run_checks_def io_defs Let_def)
        next
          case (Some t)
          show ?thesis
          proof (cases "t < 0 \<or> t > 100")
            case True
            then show ?thesis using tok task nodir Some
              by (auto simp: run_checks_def io_defs Let_def)
          next
            case False
            then show ?thesis using tok task nodir Some i
              apply (intro exI[of _ "case r of Inl e \<Rightarrow> Inl e | Inr x \<Rightarrow> Inr None"]
                  exI[of _ "Info (js ''No catalog directory specified.'') # evs"])
              by (auto simp: run_checks_def io_defs Let_def)
          qed
        qed
      next
        case dir: False
        show ?thesis
        proof (cases "fs_readdir w (tr @ [Info (js ''Catalog directory: '' @ catalog_directory inp)])
                        (catalog_directory inp)")
          case (Inl e)
          then show ?thesis using tok task dir
            by (simp add: run_checks_def io_defs Let_def)
        next
          case (Inr listing)
          let ?h = "tr @ [Info (js ''Catalog directory: '' @ catalog_directory inp),
                         CallReaddir (catalog_directory inp),
                         Info (js ''Files in catalog directory: '' @ join_sep (js '', '') listing)]"
          from ic[of ?h] obtain r evs where
            i: "initialChecksAndGetChangedFiles w ctx (orUndefined (catalog_directory inp)) ?h = (r, ?h @ evs)"
            "r = Inr ([], False) \<or> (\<exists>e. r = Inl e)"
            "list_all (\<lambda>e. \<not> is_review_call e) evs" "failures evs = []"
            "comments_posted evs = []"
            using dir by auto
          show ?thesis
          proof (cases "parseInt10 w (failure_threshold inp)")
            case None
            then show ?thesis using tok task dir Inr
              by (simp add: run_checks_def io_defs Let_def)
          next
            case (Some t)
            show ?thesis
            proof (cases "t < 0 \<or> t > 100")
              case True
              then show ?thesis using tok task dir Some Inr
                by (auto simp: run_checks_def io_defs Let_def)
            next
              case False
              then show ?thesis using tok task dir Some Inr i
                apply (intro exI[of _ "case r of Inl e \<Rightarrow> Inl e | Inr x \<Rightarrow> Inr None"]
                    exI[of _ "[Info (js ''Catalog directory: '' @ catalog_directory inp),
                         CallReaddir (catalog_directory inp),
                         Info (js ''Files in catalog directory: '' @ join_sep (js '', '') listing)] @ evs"])
                by (auto simp: run_checks_def io_defs Let_def)
            qed
          qed
        qed
      qed
    qed
  qed
qed

lemma run_stops:
  assumes ev: "eventName ctx = js ''pull_request''" and pr: "payload_pull_request ctx = Some pr"
    and H: "\<And>h. \<exists>files. pulls_listFiles w h (repo_owner ctx) (repo_repo ctx) (pr_number pr) = Inr files
              \<and> selected (orUndefined (catalog_directory inp)) files = []"
  shows "\<exists>evs. snd (run w inp ctx tr) = tr @ evs
      \<and> list_all (\<lambda>e. \<not> is_review_call e) evs
      \<and> (catalog_directory inp \<noteq> [] \<longrightarrow> comments_posted evs = [])
      \<and> (catalog_directory inp = [] \<and> github_token inp \<noteq> [] \<and> task inp \<in> set VALID_TASKS
           \<and> (\<exists>t. parseInt10 w (failure_threshold inp) = Some t \<and> 0 \<le> t \<and> t \<le> 100)
          \<longrightarrow> comments_posted evs = [noFilesChangedComment])"
proof -
  from run_checks_stops[OF ev pr H, of tr] obtain r evs where
    c: "run_checks w inp ctx tr = (r, tr @ evs)"
      "r = Inr None \<or> (\<exists>e. r = Inl e)"
      "list_all (\<lambda>e. \<not> is_review_call e) evs"
      "catalog_directory inp \<noteq> [] \<longrightarrow> comments_posted evs = []"
      "catalog_directory inp = [] \<and> github_token inp \<noteq> [] \<and> task inp \<in> set VALID_TASKS
           \<and> (\<exists>t. parseInt10 w (failure_threshold inp) = Some t \<and> 0 \<le> t \<and> t \<le> 100)
          \<longrightarrow> comments_posted evs = [noFilesChangedComment] \<and> (r = Inr None \<longrightarrow> failures evs = [])"
    by blast
  from c(2) show ?thesis
  proof
    assume "r = Inr None"
    then have "snd (run w inp ctx tr) = tr @ evs"
      using c(1) by (simp add: run_def io_defs)
    then show ?thesis using c(3,4,5) by blast
  next
    assume "\<exists>e. r = Inl e"
    then obtain e where e: "r = Inl e" by blast
    show ?thesis
    proof (cases e)
      case (ErrorObj m)
      then have "snd (run w inp ctx tr) = tr @ (evs @ [SetFailed m])"
        using c(1) e by (simp add: run_def io_defs)
      moreover have "list_all (\<lambda>e. \<not> is_review_call e) (evs @ [SetFailed m])"
        using c(3) by simp
      moreover have "comments_posted (evs @ [SetFailed m]) = comments_posted evs"
        by (simp add: comments_posted_append)
      ultimately show ?thesis using c(4,5) by metis
    next
      case (NonError v)
      then have "snd (run w inp ctx tr) = tr @ evs"
        using c(1) e by (simp add: run_def io_defs)
      then show ?thesis using c(3,4,5) by blast
    qed
  qed
qed

lemma performSchemaReview_snoc:
  "\<exists>res tr1 entry tr2 res'.
        performSchemaReview w inp owner repo paths b h tr = (Inr res, tr1)
      \<and> reviewSingleFile w inp owner repo p b h tr1 = (Inr entry, tr2)
      \<and> performSchemaReview w inp owner repo (paths @ [p]) b h tr = (Inr res', tr2)
      \<and> reviewedFiles res' = reviewedFiles res @ [entry]"
proof -
  obtain acc tr1 where l: "review_loop w inp owner repo b h paths ([], 100, []) tr = (Inr acc, tr1)"
    using review_loop_inv[of w inp owner repo b h paths "[]" 100 "[]" tr] by auto
  obtain files low lf where acc: "acc = (files, low, lf)" by (cases acc) auto
  obtain entry tr2 where e: "reviewSingleFile w inp owner repo p b h tr1 = (Inr entry, tr2)"
    using reviewSingleFile_returns by blast
  have "review_loop w inp owner repo b h (paths @ [p]) ([], 100, []) tr
          = (Inr (review_step acc p entry), tr2)"
    using l e by (simp add: review_loop_append bind_io_def ret_def)
  moreover have "fst (review_step acc p entry) = files @ [entry]"
    by (simp add: review_step_def acc split: option.splits)
  ultimately show ?thesis
    using l e acc
    by (cases "review_step acc p entry") (auto simp: performSchemaReview_def bind_io_def ret_def)
qed

lemma reviewSingleFile_outcome:
  "\<exists>old new t.
     reviewSingleFile w inp owner repo p b h tr =
       (case askAI w inp (promptForAI p old new) t of
          (Inr review, t') \<Rightarrow>
            (Inr \<lparr>filePath = p, oldFileContent = old, newFileContent = new,
                  aiReview = Some review, aiError = None\<rparr>,
             t' @ [Info (js ''AI review received for '' @ p @ js '': Score ''
                         @ numberToString w (score review))])
        | (Inl error, t') \<Rightarrow>
            (Inr \<lparr>filePath = p, oldFileContent = old, newFileContent = new,
                  aiReview = None,
                  aiError = Some (case error of ErrorObj m \<Rightarrow> m | NonError v \<Rightarrow> v)\<rparr>,
             t' @ [ErrorLog (js ''AI review failed for '' @ p @ js '': ''
                             @ (case error of ErrorObj m \<Rightarrow> m | NonError v \<Rightarrow> v))]))"
proof -
  obtain old t1 where g1:
    "getFileContentAtRef w owner repo p b
       (tr @ [Info (js ''Performing schema review for file: '' @ p)]) = (Inr old, t1)"
    using getFileContentAtRef_returns by blast
  obtain new t2 where g2: "getFileContentAtRef w owner repo p h t1 = (Inr new, t2)"
    using getFileContentAtRef_returns by blast
  show ?thesis
    apply (rule exI[of _ old], rule exI[of _ new],
        rule exI[of _ "t2 @ [Info (js ''Requesting AI review for '' @ p @ js ''...'')]"])
    by (auto simp: reviewSingleFile_def io_defs g1 g2 Let_def split: prod.splits sum.splits)
qed

lemma askAI_throws:
  "sdk_generateObject w t (if model inp \<noteq> [] then model inp else js ''o4-mini'')
      (if OPENAI_API_KEY inp \<noteq> [] then Some (OPENAI_API_KEY inp) else env_OPENAI_API_KEY inp) p
     = Inl err
   \<Longrightarrow> fst (askAI w inp p t) = Inl (ErrorObj reviewerFailure)"
  by (simp add: askAI_def generateObject_def io_defs Let_def reviewerFailure_def)

lemma askAI_succeeds:
  "sdk_generateObject w t (if model inp \<noteq> [] then model inp else js ''o4-mini'')
      (if OPENAI_API_KEY inp \<noteq> [] then Some (OPENAI_API_KEY inp) else env_OPENAI_API_KEY inp) p
     = Inr a \<Longrightarrow> AiResponseSchema a
   \<Longrightarrow> fst (askAI w inp p t) = Inr a"
  by (simp add: askAI_def generateObject_def io_defs Let_def)

lemma reviewSingleFile_when_model_throws:
  assumes "\<And>t m k old new. sdk_generateObject w t m k (promptForAI p old new) = Inl err"
  shows "\<exists>e tr'. reviewSingleFile w inp owner repo p b h tr = (Inr e, tr')
      \<and> filePath e = p \<and> aiReview e = None \<and> aiError e = Some reviewerFailure"
proof -
  obtain old new t where o: "reviewSingleFile w inp owner repo p b h tr =
       (case askAI w inp (promptForAI p old new) t of
          (Inr review, t') \<Rightarrow>
            (Inr \<lparr>filePath = p, oldFileContent = old, newFileContent = new,
                  aiReview = Some review, aiError = None\<rparr>,
             t' @ [Info (js ''AI review received for '' @ p @ js '': Score ''
                         @ numberToString w (score review))])
        | (Inl error, t') \<Rightarrow>
            (Inr \<lparr>filePath = p, oldFileContent = old, newFileContent = new,
                  aiReview = None,
                  aiError = Some (case error of ErrorObj m \<Rightarrow> m | NonError v \<Rightarrow> v)\<rparr>,
             t' @ [ErrorLog (js ''AI review failed for '' @ p @ js '': ''
                             @ (case error of ErrorObj m \<Rightarrow> m | NonError v \<Rightarrow> v))]))"
    using reviewSingleFile_outcome by blast
  have "fst (askAI w inp (promptForAI p old new) t) = Inl (ErrorObj reviewerFailure)"
    by (rule askAI_throws) (rule assms)
  then show ?thesis unfolding o
    by (cases "askAI w inp (promptForAI p old new) t") auto
qed

lemma reviewSingleFile_when_model_scores:
  assumes "\<And>t m k old new. \<exists>a. sdk_generateObject w t m k (promptForAI p old new) = Inr a \<and> score a = s"
    and "0 \<le> s" "s \<le> 100"
  shows "\<exists>e tr' a. reviewSingleFile w inp owner repo p b h tr = (Inr e, tr')
      \<and> filePath e = p \<and> aiReview e = Some a \<and> score a = s \<and> aiError e = None"
proof -
  obtain old new t where o: "reviewSingleFile w inp owner repo p b h tr =
       (case askAI w inp (promptForAI p old new) t of
          (Inr review, t') \<Rightarrow>
            (Inr \<lparr>filePath = p, oldFileContent = old, newFileContent = new,
                  aiReview = Some review, aiError = None\<rparr>,
             t' @ [Info (js ''AI review received for '' @ p @ js '': Score ''
                         @ numberToString w (score review))])
        | (Inl error, t') \<Rightarrow>
            (Inr \<lparr>filePath = p, oldFileContent = old, newFileContent = new,
                  aiReview = None,
                  aiError = Some (case error of ErrorObj m \<Rightarrow> m | NonError v \<Rightarrow> v)\<rparr>,
             t' @ [ErrorLog (js ''AI review failed for '' @ p @ js '': ''
                             @ (case error of ErrorObj m \<Rightarrow> m | NonError v \<Rightarrow> v))]))"
    using reviewSingleFile_outcome by blast
  obtain a where a: "sdk_generateObject w t (if model inp \<noteq> [] then model inp else js ''o4-mini'')
      (if OPENAI_API_KEY inp \<noteq> [] then Some (OPENAI_API_KEY inp) else env_OPENAI_API_KEY inp)
      (promptForAI p old new) = Inr a" "score a = s"
    using assms(1) by blast
  have "fst (askAI w inp (promptForAI p old new) t) = Inr a"
    using a assms(2,3) by (intro askAI_succeeds) (auto simp: AiResponseSchema_def)
  then show ?thesis unfolding o using a(2)
    by (cases "askAI w inp (promptForAI p old new) t") auto
qed

lemma two_files_first_fails:
  assumes A1: "\<And>t m k old new. sdk_generateObject w t m k (promptForAI p1 old new) = Inl err"
    and A2: "\<And>t m k old new. \<exists>a. sdk_generateObject w t m k (promptForAI p2 old new) = Inr a \<and> score a = 80"
  shows "\<exists>e1 e2 tr'.
      performSchemaReview w inp owner repo [p1, p2] b h tr
        = (Inr \<lparr>reviewedFiles = [e1, e2], overallLowestScore = 80, lowScoreFile = p2\<rparr>, tr')
    \<and> filePath e1 = p1 \<and> aiReview e1 = None \<and> aiError e1 = Some reviewerFailure
    \<and> filePath e2 = p2 \<and> (\<exists>a. aiReview e2 = Some a \<and> score a = 80) \<and> aiError e2 = None"
proof -
  obtain e1 tr1 where e1: "reviewSingleFile w inp owner repo p1 b h tr = (Inr e1, tr1)"
    "filePath e1 = p1" "aiReview e1 = None" "aiError e1 = Some reviewerFailure"
    using reviewSingleFile_when_model_throws[OF A1] by blast
  obtain e2 tr2 a where e2: "reviewSingleFile w inp owner repo p2 b h tr1 = (Inr e2, tr2)"
    "filePath e2 = p2" "aiReview e2 = Some a" "score a = 80" "aiError e2 = None"
    using reviewSingleFile_when_model_scores[OF A2, of inp owner repo b h tr1] by auto
  have "performSchemaReview w inp owner repo [p1, p2] b h tr
        = (Inr \<lparr>reviewedFiles = [e1, e2], overallLowestScore = 80, lowScoreFile = p2\<rparr>, tr2)"
    using e1 e2 by (simp add: performSchemaReview_def bind_io_def ret_def review_step_def)
  then show ?thesis using e1 e2 by blast
qed

lemma badges_distinct:
  "dangerBadge \<noteq> warningBadge" "dangerBadge \<noteq> safeBadge" "warningBadge \<noteq> safeBadge"
  by (simp_all add: dangerBadge_def warningBadge_def safeBadge_def js_def)

text \<open>Facts of the example world.\<close>

lemma demo_bad:
  "sdk_generateObject demo_world t m k (promptForAI (js ''bad.json'') old new) = Inl (ErrorObj (js ''rate limited''))"
  by (simp add: demo_world_def promptForAI_def js_def)

lemma demo_readme:
  "\<exists>a. sdk_generateObject demo_world t m k (promptForAI (js ''README.md'') old new) = Inr a \<and> score a = 80"
  by (simp add: demo_world_def promptForAI_def js_def demo_review_def)

lemma demo_checks:
  "run_checks demo_world demo_inputs demo_context [] =
     (Inr (Some (50, [js ''schemas/order.json'', js ''README.md''])),
      [Info (js ''No catalog directory specified.''), CallListFiles (js ''acme'') (js ''catalog'') 7])"
  by (simp add: run_checks_def initialChecksAndGetChangedFiles_def getChangedFiles_def io_defs
      demo_world_def demo_inputs_def demo_context_def VALID_TASKS_def orUndefined_def js_def)

lemma demo_review_result:
  "\<exists>files tr1. performSchemaReview demo_world demo_inputs (js ''acme'') (js ''catalog'')
     [js ''schemas/order.json'', js ''README.md''] (js ''b4se'') (js ''h34d'') tr
    = (Inr \<lparr>reviewedFiles = files, overallLowestScore = 40, lowScoreFile = js ''schemas/order.json''\<rparr>, tr1)"
  by (simp add: performSchemaReview_def reviewSingleFile_def askAI_def generateObject_def
      getFileContentAtRef_def io_defs review_step_def Let_def AiResponseSchema_def
      demo_world_def demo_inputs_def demo_review_def promptForAI_def js_def)

text \<open>Regular expressions: the test decides the membership of a prefix in the language.\<close>

lemma nullable_lang: "nullable r \<longleftrightarrow> [] \<in> lang r"
  by (induction r) (auto simp: conc_def intro: repeats.none)

lemma repeats_Cons:
  "c # w \<in> repeats A \<longleftrightarrow> (\<exists>u v. w = u @ v \<and> c # u \<in> A \<and> v \<in> repeats A)"
proof
  have "x \<in> repeats A \<Longrightarrow> x = c # w \<Longrightarrow> \<exists>u v. w = u @ v \<and> c # u \<in> A \<and> v \<in> repeats A" for x
  proof (induction arbitrary: w rule: repeats.induct)
    case none
    then show ?case by simp
  next
    case (more u v)
    show ?case
    proof (cases u)
      case Nil
      then show ?thesis using more by simp
    next
      case (Cons a u')
      then show ?thesis using more by auto
    qed
  qed
  then show "c # w \<in> repeats A \<Longrightarrow> \<exists>u v. w = u @ v \<and> c # u \<in> A \<and> v \<in> repeats A"
    by blast
next
  assume "\<exists>u v. w = u @ v \<and> c # u \<in> A \<and> v \<in> repeats A"
  then obtain u v where "w = u @ v" "c # u \<in> A" "v \<in> repeats A" by blast
  then show "c # w \<in> repeats A" using repeats.more[of "c # u" A v] by simp
qed

lemma lang_deriv: "w \<in> lang (deriv c r) \<longleftrightarrow> c # w \<in> lang r"
proof (induction r arbitrary: w)
  case (Cat r s)
  show ?case
    using Cat.IH
    by (auto simp: conc_def nullable_lang Cons_eq_append_conv)
next
  case (Many r)
  show ?case
    using Many.IH by (auto simp: conc_def repeats_Cons)
qed (auto simp: conc_def)

lemma test_from_iff: "test_from s r \<longleftrightarrow> (\<exists>p q. s = p @ q \<and> p \<in> lang r)"
proof (induction s arbitrary: r)
  case Nil
  show ?case by (simp add: nullable_lang)
next
  case (Cons c cs)
  show ?case
    by (auto simp: Cons.IH nullable_lang lang_deriv Cons_eq_append_conv)
qed

lemma repeats_Class: "repeats {[c] | c. P c} = {w. list_all P w}"
proof (intro set_eqI iffI)
  fix w assume "w \<in> repeats {[c] | c. P c}"
  then show "w \<in> {w. list_all P w}"
    by (induction rule: repeats.induct) auto
next
  fix w assume "w \<in> {w. list_all P w}"
  then have "list_all P w" by simp
  then show "w \<in> repeats {[c] | c. P c}"
  proof (induction w)
    case Nil
    show ?case by (rule repeats.none)
  next
    case (Cons a w)
    then have "[a] \<in> {[c] | c. P c}" "w \<in> repeats {[c] | c. P c}" by auto
    then have "[a] @ w \<in> repeats {[c] | c. P c}" by (rule repeats.more)
    then show ?case by simp
  qed
qed

lemma lang_Many_Class: "lang (Many (Class P)) = {w. list_all P w}"
  by (simp add: repeats_Class)

lemma lang_Many1_Class: "lang (Many1 (Class P)) = {w. w \<noteq> [] \<and> list_all P w}"
proof -
  have "conc {[c] | c. P c} {w. list_all P w} = {w. w \<noteq> [] \<and> list_all P w}"
  proof (intro set_eqI iffI)
    fix w assume "w \<in> conc {[c] | c. P c} {w. list_all P w}"
    then show "w \<in> {w. w \<noteq> [] \<and> list_all P w}" by (auto simp: conc_def)
  next
    fix w assume "w \<in> {w. w \<noteq> [] \<and> list_all P w}"
    then obtain a v where "w = a # v" "P a" "list_all P v" by (cases w) auto
    then have "w = [a] @ v" "[a] \<in> {[c] | c. P c}" "v \<in> {w. list_all P w}" by auto
    then show "w \<in> conc {[c] | c. P c} {w. list_all P w}" unfolding conc_def by blast
  qed
  then show ?thesis by (simp add: Many1_def repeats_Class)
qed

lemma trimStart_Nil_iff: "trimStart s = [] \<longleftrightarrow> list_all is_ws s"
  by (simp add: trimStart_def dropWhile_eq_Nil_conv list_all_iff)

lemma trimEnd_Nil_iff: "trimEnd s = [] \<longleftrightarrow> list_all is_ws s"
  by (simp add: trimEnd_def dropWhile_eq_Nil_conv list_all_iff)

lemma trim_Nil_iff: "trim s = [] \<longleftrightarrow> list_all is_ws s"
proof -
  have "list_all is_ws (dropWhile is_ws s) \<longleftrightarrow> list_all is_ws s"
    by (induction s) auto
  then show ?thesis by (simp add: trim_def trimEnd_Nil_iff trimStart_def)
qed

lemma trimEnd_snoc: "\<not> is_ws x \<Longrightarrow> trimEnd (s @ [x]) = s @ [x]"
  by (simp add: trimEnd_def)

lemma trimEnd_ends:
  assumes "\<not> list_all is_ws s"
  shows "\<exists>p x. trimEnd s = p @ [x] \<and> \<not> is_ws x"
proof -
  have "dropWhile is_ws (rev s) \<noteq> []"
    using assms by (simp add: dropWhile_eq_Nil_conv list_all_iff)
  then obtain x r where d: "dropWhile is_ws (rev s) = x # r" by (cases "dropWhile is_ws (rev s)") auto
  then have "\<not> is_ws x" by (metis hd_dropWhile list.sel(1) list.distinct(1))
  moreover have "trimEnd s = rev r @ [x]" by (simp add: trimEnd_def d)
  ultimately show ?thesis by blast
qed

lemma trimEnd_idem: "trimEnd (trimEnd s) = trimEnd s"
proof (cases "list_all is_ws s")
  case True
  then have "trimEnd s = []" by (simp add: trimEnd_Nil_iff)
  then show ?thesis by (simp add: trimEnd_def)
next
  case False
  then obtain p x where "trimEnd s = p @ [x]" "\<not> is_ws x" using trimEnd_ends by blast
  then show ?thesis by (simp add: trimEnd_snoc)
qed

lemma trimEnd_blank_iff: "list_all is_ws (trimEnd s) \<longleftrightarrow> list_all is_ws s"
  by (metis trimEnd_Nil_iff trimEnd_idem)

lemma trimStart_ends:
  assumes "\<not> is_ws x"
  shows "\<exists>q. trimStart (p @ [x]) = q @ [x]"
  using assms by (induction p) (auto simp: trimStart_def)

lemma split_sep_nonempty: "split_sep sep s \<noteq> []"
  by (induction s) (auto split: list.splits)

lemma split_sep_all:
  assumes "P sep"
  shows "list_all (list_all P) (split_sep sep s) \<longleftrightarrow> list_all P s"
proof (induction s)
  case Nil
  show ?case by simp
next
  case (Cons c cs)
  obtain l ls where "split_sep sep cs = l # ls"
    using split_sep_nonempty[of sep cs] by (cases "split_sep sep cs") auto
  then show ?case using Cons assms by auto
qed

lemma is_ws_newline: "is_ws 0xA"
  by (simp add: is_ws_def)

lemma conc_iff: "w \<in> conc A B \<longleftrightarrow> (\<exists>u v. w = u @ v \<and> u \<in> A \<and> v \<in> B)"
  unfolding conc_def by blast

lemma lang_numbered:
  "mk \<in> lang (Cat (Many1 (Class P)) (Class is_dot))
     \<longleftrightarrow> (\<exists>ds. ds \<noteq> [] \<and> list_all P ds \<and> mk = ds @ [0x2E])"
  unfolding lang.simps(3,4) lang_Many1_Class conc_iff is_dot_def by blast

lemma lang_markers:
  "mk \<in> lang (Or (Class is_bullet)
           (Or (Class is_o)
           (Or (Cat (Many1 (Class is_digit)) (Class is_dot))
               (Cat (Many1 (Class is_roman)) (Class is_dot)))))
     \<longleftrightarrow> is_marker mk"
proof -
  have "mk \<in> lang (Class is_bullet) \<union> lang (Class is_o)
          \<longleftrightarrow> (\<exists>c. mk = [c] \<and> (is_bullet c \<or> is_o c))"
    by auto
  then show ?thesis
    unfolding lang.simps(5) Un_iff lang_numbered is_marker_def by blast
qed

lemma lang_listMarkerRegex:
  "p \<in> lang listMarkerRegex \<longleftrightarrow>
     (\<exists>ind mk sps. p = ind @ mk @ sps \<and> list_all is_ws ind \<and> is_marker mk
        \<and> sps \<noteq> [] \<and> list_all is_ws sps)"
proof -
  have "p \<in> lang listMarkerRegex \<longleftrightarrow>
     (\<exists>ind r. p = ind @ r \<and> ind \<in> lang (Many (Class is_ws))
        \<and> (\<exists>mk sps. r = mk @ sps
             \<and> mk \<in> lang (Or (Class is_bullet)
                   (Or (Class is_o)
                   (Or (Cat (Many1 (Class is_digit)) (Class is_dot))
                       (Cat (Many1 (Class is_roman)) (Class is_dot)))))
             \<and> sps \<in> lang (Many1 (Class is_ws))))"
    unfolding listMarkerRegex_def lang.simps(4) conc_iff ..
  also have "\<dots> \<longleftrightarrow>
     (\<exists>ind r. p = ind @ r \<and> list_all is_ws ind
        \<and> (\<exists>mk sps. r = mk @ sps \<and> is_marker mk \<and> sps \<noteq> [] \<and> list_all is_ws sps))"
    unfolding lang_markers lang_Many_Class lang_Many1_Class mem_Collect_eq ..
  also have "\<dots> \<longleftrightarrow>
     (\<exists>ind mk sps. p = ind @ mk @ sps \<and> list_all is_ws ind \<and> is_marker mk
        \<and> sps \<noteq> [] \<and> list_all is_ws sps)"
    by blast
  finally show ?thesis .
qed

lemma listMarkerRegex_test:
  "regex_test listMarkerRegex l \<longleftrightarrow> marker_then_space l"
proof
  assume "regex_test listMarkerRegex l"
  then obtain p q where pq: "l = p @ q" "p \<in> lang listMarkerRegex"
    unfolding regex_test_def test_from_iff by blast
  then obtain ind mk sps where p: "p = ind @ mk @ sps" "list_all is_ws ind" "is_marker mk"
    "sps \<noteq> []" "list_all is_ws sps"
    unfolding lang_listMarkerRegex by blast
  then obtain sp sps' where s: "sps = sp # sps'" "is_ws sp" by (cases sps) auto
  have "l = ind @ mk @ sp # (sps' @ q)" using p(1) pq(1) s(1) by simp
  then show "marker_then_space l" using p(2,3) s(2) unfolding marker_then_space_def by blast
next
  assume "marker_then_space l"
  then obtain ind mk sp rest where m: "l = ind @ mk @ sp # rest" "list_all is_ws ind"
    "is_marker mk" "is_ws sp"
    unfolding marker_then_space_def by blast
  have "[sp] \<noteq> [] \<and> list_all is_ws [sp]" using m(4) by simp
  then have "ind @ mk @ [sp] \<in> lang listMarkerRegex"
    unfolding lang_listMarkerRegex using m(2,3) by blast
  moreover have "l = (ind @ mk @ [sp]) @ rest" using m(1) by simp
  ultimately show "regex_test listMarkerRegex l"
    unfolding regex_test_def test_from_iff by blast
qed

lemma format_line_eq:
  "format_line (s, h) l = (s @ normalized_line l @ js ''\<newline>'', h \<or> \<not> list_all is_ws l)"
  by (simp add: format_line_def normalized_line_def Let_def trim_Nil_iff trimEnd_blank_iff
      listMarkerRegex_test)

lemma fold_format_line:
  "fold (\<lambda>line acc. format_line acc line) ls (s, h) =
     (s @ concat (map (\<lambda>l. normalized_line l @ js ''\<newline>'') ls),
      h \<or> \<not> list_all (list_all is_ws) ls)"
  by (induction ls arbitrary: s h) (auto simp: format_line_eq)

lemma formatSection_lines:
  "formatSectionAsBulletedList w title content =
     js ''### '' @ title @ js ''\<newline>''
     @ (case content of
          Some text \<Rightarrow>
            if list_all is_ws text
            then js ''No '' @ toLowerCase w title @ js '' provided.\<newline>''
            else concat (map (\<lambda>l. normalized_line l @ js ''\<newline>'') (split_sep 0xA text))
        | None \<Rightarrow> js ''No '' @ toLowerCase w title @ js '' provided.\<newline>'')
     @ js ''\<newline>''"
proof (cases content)
  case None
  then show ?thesis by (simp add: formatSectionAsBulletedList_def)
next
  case (Some block)
  show ?thesis
  proof (cases "list_all is_ws block")
    case True
    then show ?thesis using Some
      by (auto simp: formatSectionAsBulletedList_def trim_Nil_iff)
  next
    case False
    then have "\<not> list_all (list_all is_ws) (split_sep 0xA block)"
      using split_sep_all[of is_ws "0xA" block] is_ws_newline by simp
    moreover have "block \<noteq> []" using False by auto
    ultimately show ?thesis using Some False
      by (simp add: formatSectionAsBulletedList_def trim_Nil_iff fold_format_line)
  qed
qed

lemma js_dash_space: "js ''- '' = [0x2D, 0x20]"
  by (simp add: js_def)

lemma normalized_line_fixed: "normalized_line (normalized_line l) = normalized_line l"
proof (cases "list_all is_ws l")
  case True
  then show ?thesis by (simp add: normalized_line_def)
next
  case False
  then obtain p x where e: "trimEnd l = p @ [x]" "\<not> is_ws x" using trimEnd_ends by blast
  have nb: "\<not> list_all is_ws (trimEnd l)" using False by (simp add: trimEnd_blank_iff)
  show ?thesis
  proof (cases "marker_then_space (trimEnd l)")
    case True
    then have "normalized_line l = trimEnd l" using False by (simp add: normalized_line_def)
    then show ?thesis using True nb by (simp add: normalized_line_def trimEnd_idem)
  next
    case nm: False
    obtain q where q: "trimStart (trimEnd l) = q @ [x]"
      using trimStart_ends[OF e(2), of p] e(1) by auto
    let ?out = "js ''- '' @ trimStart (trimEnd l)"
    have out: "normalized_line l = ?out" using False nm by (simp add: normalized_line_def)
    have te: "trimEnd ?out = ?out"
      using trimEnd_snoc[OF e(2), of "js ''- '' @ q"] q by simp
    have nbo: "\<not> list_all is_ws ?out" using q e(2) by simp
    have "is_marker [0x2D]" by (simp add: is_marker_def is_bullet_def)
    moreover have "is_ws 0x20" by (simp add: is_ws_def)
    moreover have "?out = [] @ [0x2D] @ 0x20 # trimStart (trimEnd l)" by (simp add: js_dash_space)
    moreover have "list_all is_ws []" by simp
    ultimately have "marker_then_space ?out"
      unfolding marker_then_space_def by blast
    then show ?thesis unfolding out using nbo te by (simp add: normalized_line_def)
  qed
qed

lemma split_sep_lines_free: "list_all (\<lambda>l. sep \<notin> set l) (split_sep sep s)"
proof (induction s)
  case Nil
  show ?case by simp
next
  case (Cons c cs)
  then show ?case by (cases "split_sep sep cs") auto
qed

lemma split_sep_free: "sep \<notin> set l \<Longrightarrow> split_sep sep l = [l]"
  by (induction l) auto

lemma split_sep_append:
  "sep \<notin> set l \<Longrightarrow> split_sep sep (l @ sep # s) = l # split_sep sep s"
  by (induction l) auto

lemma split_join:
  "ls \<noteq> [] \<Longrightarrow> list_all (\<lambda>l. sep \<notin> set l) ls \<Longrightarrow> split_sep sep (join_sep [sep] ls) = ls"
proof (induction "[sep]" ls rule: join_sep.induct)
  case 1
  then show ?case by simp
next
  case (2 x)
  then show ?case by (simp add: split_sep_free)
next
  case (3 x y ys)
  then show ?case by (simp add: split_sep_append)
qed

lemma set_trimEnd: "set (trimEnd l) \<subseteq> set l"
  unfolding trimEnd_def using set_dropWhileD by fastforce

lemma set_trimStart: "set (trimStart l) \<subseteq> set l"
  unfolding trimStart_def using set_dropWhileD by fastforce

lemma normalized_line_free:
  assumes "0xA \<notin> set l"
  shows "0xA \<notin> set (normalized_line l)"
proof -
  have "0xA \<notin> set (trimEnd l)" using assms set_trimEnd by blast
  moreover from this have "0xA \<notin> set (trimStart (trimEnd l))" using set_trimStart by blast
  ultimately show ?thesis using assms by (auto simp: normalized_line_def js_dash_space)
qed

lemma normalized_line_blank: "list_all is_ws (normalized_line l) \<longleftrightarrow> list_all is_ws l"
proof (cases "list_all is_ws l")
  case True
  then show ?thesis by (simp add: normalized_line_def)
next
  case False
  then obtain p x where e: "trimEnd l = p @ [x]" "\<not> is_ws x" using trimEnd_ends by blast
  obtain q where q: "trimStart (trimEnd l) = q @ [x]"
    using trimStart_ends[OF e(2), of p] e(1) by auto
  show ?thesis using False e q by (simp add: normalized_line_def)
qed

lemma map_normalized_blank:
  "list_all (list_all is_ws) (map normalized_line ls) \<longleftrightarrow> list_all (list_all is_ws) ls"
  by (induction ls) (simp_all add: normalized_line_blank)

lemma js_newline: "js ''\<newline>'' = [0xA]"
  by (simp add: js_def)

lemmas eval_defs = formatSectionAsBulletedList_def format_line_def regex_test_def listMarkerRegex_def
  Many1_def trim_def trimStart_def trimEnd_def is_ws_def is_bullet_def is_o_def is_digit_def
  is_roman_def is_dot_def Let_def js_def

lemma listMarkerRegex_examples:
  "map (regex_test listMarkerRegex)
     [js ''- a'', js '' * a'', js ''1. a'', js ''12.a'', js ''iv. x'', js ''IX.  x'', js ''o x'',
      js ''only'', js ''-'', js ''- '', js ''a. b'', js ''1 a'', js ''*bold* text'', js ''+ x'']
   = [True, True, True, False, True, True, True, False, False, True, False, False, False, True]"
  by (simp add: eval_defs)

lemma list_normalization_example:
  "formatSectionAsBulletedList demo_world (js ''Recommendations'')
     (Some (js ''Use event versioning.\<newline>- Already bulleted.\<newline>\<newline>Second note.''))
   = js ''### Recommendations\<newline>- Use event versioning.\<newline>- Already bulleted.\<newline>\<newline>- Second note.\<newline>\<newline>''"
  by (simp add: eval_defs)

lemma list_normalization_blank:
  "formatSectionAsBulletedList demo_world (js ''Recommendations'') (Some (js '' \<newline>  ''))
   = js ''### Recommendations\<newline>No recommendations provided.\<newline>\<newline>''"
  by (simp add: eval_defs demo_world_def)

section \<open>The properties\<close>

text \<open>
  C1. For any list of paths (and any world and history), \<open>performSchemaReview\<close> returns,
  and the \<open>overallLowestScore\<close> it returns is the minimum of the scores of the outcomes
  that have an assessment, and 100 when no outcome has one. Outcomes without an
  assessment do not enter the minimum.
\<close>

theorem overallLowestScore_is_minimum:
  "\<exists>res tr'.
      performSchemaReview w inp owner repo paths baseSha headSha tr = (Inr res, tr')
    \<and> overallLowestScore res =
        (if assessmentScores (reviewedFiles res) = [] then 100
         else Min (set (assessmentScores (reviewedFiles res))))"
proof -
  obtain res tr' where r:
    "performSchemaReview w inp owner repo paths baseSha headSha tr = (Inr res, tr')"
    "list_all outcome_ok (reviewedFiles res)"
    "overallLowestScore res = Min (insert 100 (set (assessmentScores (reviewedFiles res))))"
    using performSchemaReview_result by blast
  let ?S = "set (assessmentScores (reviewedFiles res))"
  have "Min (insert 100 ?S) = Min ?S" if "?S \<noteq> {}"
  proof -
    have "Min ?S \<in> ?S" using that by simp
    then have "Min ?S \<le> 100" using scores_le_100[OF r(2)] by blast
    moreover have "Min (insert 100 ?S) = min 100 (Min ?S)"
      using that by (intro Min_insert) auto
    ultimately show ?thesis by (simp only: min_def) simp
  qed
  then show ?thesis using r(1,3) by auto
qed

text \<open>
  C2. The badge put before the score of an assessed file is the danger badge exactly when
  the score is below 25, the warning badge exactly when it is at least 25 and below 75,
  and the safe badge exactly when it is at least 75; the scores 24, 25, 74 and 75 give
  danger, warning, warning and safe. The text rendered for an outcome with an assessment
  starts with the score heading followed by that badge.
\<close>

theorem severity_badge_thresholds:
  "(scorePrefix s = dangerBadge \<longleftrightarrow> s < 25)
   \<and> (scorePrefix s = warningBadge \<longleftrightarrow> 25 \<le> s \<and> s < 75)
   \<and> (scorePrefix s = safeBadge \<longleftrightarrow> 75 \<le> s)
   \<and> scorePrefix 24 = dangerBadge \<and> scorePrefix 25 = warningBadge
   \<and> scorePrefix 74 = warningBadge \<and> scorePrefix 75 = safeBadge
   \<and> (\<exists>rest. comment_for_file w owner repo n (f\<lparr>aiReview := Some a\<rparr>)
                = js ''### **Score:** '' @ scorePrefix (score a) @ rest)"
proof -
  have 1: "scorePrefix s = (if s < 25 then dangerBadge else if s < 75 then warningBadge else safeBadge)" for s
    by (simp add: scorePrefix_def dangerBadge_def warningBadge_def safeBadge_def)
  show ?thesis
    using badges_distinct by (auto simp: 1 comment_for_file_def Let_def)
qed

text \<open>
  C3, amended. \<open>formatSectionAsBulletedList\<close> writes the heading line and then, when the
  text has a character that is not whitespace, one line for each line of the text (split
  at newlines), each followed by a newline: a line of whitespace only is written as it
  is; a line that, without its trailing whitespace, starts after optional whitespace with
  a list marker followed by a whitespace character is written without its trailing
  whitespace; every other line is written as \<open>- \<close> followed by the line without its
  leading and trailing whitespace. When the text is missing, empty or whitespace only,
  the fixed line \<open>No <title> provided.\<close> is written instead of lines. A newline ends
  the section.
\<close>

theorem list_normalization_by_line:
  "formatSectionAsBulletedList w title content =
     js ''### '' @ title @ js ''\<newline>''
     @ (case content of
          Some text \<Rightarrow>
            if list_all is_ws text
            then js ''No '' @ toLowerCase w title @ js '' provided.\<newline>''
            else concat (map (\<lambda>l. normalized_line l @ js ''\<newline>'') (split_sep 0xA text))
        | None \<Rightarrow> js ''No '' @ toLowerCase w title @ js '' provided.\<newline>'')
     @ js ''\<newline>''"
  by (rule formatSection_lines)

text \<open>
  C3 as stated fails: the lines \<open>only this\<close> and \<open>1.5 percent\<close> start with a marker of
  the claim's list (\<open>o\<close>, and a numeral followed by a dot), and they are not passed
  through: each is written with \<open>- \<close> before it, since no whitespace follows the marker.
\<close>

theorem marker_without_space_counterexample:
  "starts_with_marker (js ''only this'') \<and> starts_with_marker (js ''1.5 percent'')
   \<and> formatSectionAsBulletedList demo_world (js ''Recommendations'')
        (Some (js ''only this\<newline>1.5 percent''))
      = js ''### Recommendations\<newline>- only this\<newline>- 1.5 percent\<newline>\<newline>''
   \<and> formatSectionAsBulletedList demo_world (js ''Recommendations'')
        (Some (js ''only this\<newline>1.5 percent''))
      \<noteq> js ''### Recommendations\<newline>only this\<newline>1.5 percent\<newline>\<newline>''"
proof -
  have "js ''only this'' = [] @ [0x6F] @ js ''nly this''" by (simp add: js_def)
  moreover have "is_marker [0x6F]" by (simp add: is_marker_def is_o_def)
  moreover have "list_all is_ws []" by simp
  ultimately have 1: "starts_with_marker (js ''only this'')"
    unfolding starts_with_marker_def by blast
  have "js ''1.5 percent'' = [] @ ([0x31] @ [0x2E]) @ js ''5 percent''" by (simp add: js_def)
  moreover have "is_marker ([0x31] @ [0x2E])"
    unfolding is_marker_def by (rule disjI2, rule disjI1, rule exI[of _ "[0x31]"]) (simp add: is_digit_def)
  moreover have "list_all is_ws []" by simp
  ultimately have 2: "starts_with_marker (js ''1.5 percent'')"
    unfolding starts_with_marker_def by blast
  have 3: "formatSectionAsBulletedList demo_world (js ''Recommendations'')
        (Some (js ''only this\<newline>1.5 percent''))
      = js ''### Recommendations\<newline>- only this\<newline>- 1.5 percent\<newline>\<newline>''"
    by (simp add: eval_defs)
  have 4: "js ''### Recommendations\<newline>- only this\<newline>- 1.5 percent\<newline>\<newline>''
      \<noteq> js ''### Recommendations\<newline>only this\<newline>1.5 percent\<newline>\<newline>''"
    by (simp add: js_def)
  show ?thesis using 1 2 3 4 by simp
qed

text \<open>
  C4, amended. For every text, list normalization is idempotent on the lines it writes:
  there are lines, none with a newline inside, one for each line of the text, such that
  the section of a text with non-whitespace content is the heading followed by these
  lines, and such that the section of the text made of these lines (joined by newlines)
  is the section of the text itself. This holds in particular for a text whose lines
  already start with a marker followed by whitespace.
\<close>

theorem list_normalization_idempotent_on_lines:
  "\<exists>lines.
      length lines = length (split_sep 0xA block)
    \<and> list_all (\<lambda>l. 0xA \<notin> set l) lines
    \<and> formatSectionAsBulletedList w title (Some block) =
        js ''### '' @ title @ js ''\<newline>''
        @ (if list_all is_ws block then js ''No '' @ toLowerCase w title @ js '' provided.\<newline>''
           else concat (map (\<lambda>l. l @ js ''\<newline>'') lines))
        @ js ''\<newline>''
    \<and> formatSectionAsBulletedList w title (Some (join_sep (js ''\<newline>'') lines))
        = formatSectionAsBulletedList w title (Some block)"
proof -
  let ?ls = "split_sep 0xA block"
  let ?out = "map normalized_line ?ls"
  have ne: "?out \<noteq> []" using split_sep_nonempty[of "0xA" block] by simp
  have free: "list_all (\<lambda>l. 0xA \<notin> set l) ?out"
    using split_sep_lines_free[of "0xA" block] normalized_line_free
    by (simp add: list_all_iff)
  have sj: "split_sep 0xA (join_sep (js ''\<newline>'') ?out) = ?out"
    unfolding js_newline by (rule split_join[OF ne free])
  have "list_all is_ws (join_sep (js ''\<newline>'') ?out)
          \<longleftrightarrow> list_all (list_all is_ws) (split_sep 0xA (join_sep (js ''\<newline>'') ?out))"
    using split_sep_all[of is_ws "0xA"] is_ws_newline by simp
  also have "\<dots> \<longleftrightarrow> list_all (list_all is_ws) ?ls"
    unfolding sj by (rule map_normalized_blank)
  also have "\<dots> \<longleftrightarrow> list_all is_ws block"
    using split_sep_all[of is_ws "0xA"] is_ws_newline by simp
  finally have blank: "list_all is_ws (join_sep (js ''\<newline>'') ?out) \<longleftrightarrow> list_all is_ws block" .
  have first: "formatSectionAsBulletedList w title (Some block) =
        js ''### '' @ title @ js ''\<newline>''
        @ (if list_all is_ws block then js ''No '' @ toLowerCase w title @ js '' provided.\<newline>''
           else concat (map (\<lambda>l. l @ js ''\<newline>'') ?out))
        @ js ''\<newline>''"
    by (simp add: formatSection_lines comp_def)
  have second: "formatSectionAsBulletedList w title (Some (join_sep (js ''\<newline>'') ?out))
        = formatSectionAsBulletedList w title (Some block)"
    by (simp add: formatSection_lines blank sj comp_def normalized_line_fixed)
  show ?thesis
    using first second free by (intro exI[of _ ?out]) simp
qed

text \<open>
  C4 as stated fails on the whole output: for the text \<open>- a\<close>, whose only line starts
  with a marker, the section of the section has its heading turned into a list item and
  two more newlines at its end.
\<close>

theorem whole_output_not_idempotent_counterexample:
  "marker_then_space (js ''- a'') \<and> split_sep 0xA (js ''- a'') = [js ''- a'']
   \<and> formatSectionAsBulletedList demo_world (js ''T'') (Some (js ''- a''))
        = js ''### T\<newline>- a\<newline>\<newline>''
   \<and> formatSectionAsBulletedList demo_world (js ''T'')
        (Some (formatSectionAsBulletedList demo_world (js ''T'') (Some (js ''- a''))))
        = js ''### T\<newline>- ### T\<newline>- a\<newline>\<newline>\<newline>\<newline>''
   \<and> formatSectionAsBulletedList demo_world (js ''T'')
        (Some (formatSectionAsBulletedList demo_world (js ''T'') (Some (js ''- a''))))
        \<noteq> formatSectionAsBulletedList demo_world (js ''T'') (Some (js ''- a''))"
proof -
  have "js ''- a'' = [] @ [0x2D] @ 0x20 # js ''a''" by (simp add: js_def)
  moreover have "is_marker [0x2D]" by (simp add: is_marker_def is_bullet_def)
  moreover have "is_ws 0x20" by (simp add: is_ws_def)
  moreover have "list_all is_ws []" by simp
  ultimately have 1: "marker_then_space (js ''- a'')"
    unfolding marker_then_space_def by blast
  have 2: "split_sep 0xA (js ''- a'') = [js ''- a'']" by (simp add: js_def)
  have 3: "formatSectionAsBulletedList demo_world (js ''T'') (Some (js ''- a''))
        = js ''### T\<newline>- a\<newline>\<newline>''"
    by (simp add: eval_defs)
  have 4: "formatSectionAsBulletedList demo_world (js ''T'') (Some (js ''### T\<newline>- a\<newline>\<newline>''))
        = js ''### T\<newline>- ### T\<newline>- a\<newline>\<newline>\<newline>\<newline>''"
    by (simp add: eval_defs)
  have 5: "js ''### T\<newline>- ### T\<newline>- a\<newline>\<newline>\<newline>\<newline>'' \<noteq> js ''### T\<newline>- a\<newline>\<newline>''"
    by (simp add: js_def)
  show ?thesis using 1 2 5 unfolding 3 4 by simp
qed

text \<open>
  C5. The end of \<open>run\<close>, for every review result and every threshold: the comment is
  posted first, whatever the score. When the post throws, the block does nothing more.
  When it succeeds, the output is set and the run is then marked failed exactly when the
  lowest score is strictly below the threshold; the message names the file, the score
  and the threshold. In a run that passes its checks the threshold is in [0,100], and no
  comment is posted and no failure is set before this block: the run's trace ends with
  the post, followed by the failure of the post or by the output and the threshold
  failure.
\<close>

theorem threshold_gate_after_comment:
  "comment_and_gate w ctx owner repo n body res t tr =
     (case issues_createComment w tr owner repo n body of
        Inl e \<Rightarrow> (Inl e, tr @ [CallCreateComment owner repo n body])
      | Inr u \<Rightarrow>
          (Inr (), tr @ [CallCreateComment owner repo n body,
                         SetOutput (js ''comment-url'') (commentUrl w ctx owner repo n)]
                   @ (if overallLowestScore res < of_int t
                      then [SetFailed (thresholdFailure w res t)] else [])))
   \<and> thresholdFailure w res t =
       js ''Action failed: File '' @ [0x27] @ lowScoreFile res @ [0x27]
       @ js '' received an AI review score of '' @ numberToString w (overallLowestScore res)
       @ js '', which is below the threshold of '' @ numberToString w (of_int t) @ js ''.''
   \<and> (run_checks w inp ctx tr0 = (Inr (Some (t', paths)), tr1) \<longrightarrow>
       (\<exists>pr res' tr2 ev.
          payload_pull_request ctx = Some pr \<and> 0 \<le> t' \<and> t' \<le> 100
        \<and> performSchemaReview w inp (repo_owner ctx) (repo_repo ctx) paths (pr_base_sha pr)
             (pr_head_sha pr) (tr1 @ [Info (js ''directory: '' @ catalog_directory inp)])
            = (Inr res', tr2)
        \<and> tr2 = tr0 @ ev \<and> comments_posted ev = [] \<and> failures ev = []
        \<and> snd (run w inp ctx tr0) =
            tr2 @ CallCreateComment (repo_owner ctx) (repo_repo ctx) (pr_number pr)
                    (generateCommentBody w (repo_owner ctx) (repo_repo ctx) (pr_number pr)
                       (reviewedFiles res') (pr_head_sha pr) (pr_base_sha pr)
                       (orUndefined (catalog_directory inp)))
              # (case issues_createComment w tr2 (repo_owner ctx) (repo_repo ctx) (pr_number pr)
                        (generateCommentBody w (repo_owner ctx) (repo_repo ctx) (pr_number pr)
                           (reviewedFiles res') (pr_head_sha pr) (pr_base_sha pr)
                           (orUndefined (catalog_directory inp))) of
                   Inl e \<Rightarrow> (case e of ErrorObj m \<Rightarrow> [SetFailed m] | NonError v \<Rightarrow> [])
                 | Inr u \<Rightarrow>
                     SetOutput (js ''comment-url'')
                       (commentUrl w ctx (repo_owner ctx) (repo_repo ctx) (pr_number pr))
                     # (if overallLowestScore res' < of_int t'
                        then [SetFailed (thresholdFailure w res' t')] else []))))"
  using comment_and_gate_eq[of w ctx owner repo n body res t tr]
    run_gate_trace[of w inp ctx tr0 t' paths tr1]
  by (simp add: thresholdFailure_def)

theorem threshold_gate_after_comment_witness:
  "failures (snd (run demo_world demo_inputs demo_context [])) =
     [js ''Action failed: File '' @ [0x27] @ js ''schemas/order.json'' @ [0x27]
      @ js '' received an AI review score of 40, which is below the threshold of 50.'']
   \<and> length (comments_posted (snd (run demo_world demo_inputs demo_context []))) = 1"
proof -
  from threshold_gate_after_comment[where w = demo_world and ctx = demo_context
      and owner = "[]" and repo = "[]" and n = 0 and body = "[]"
      and res = "\<lparr>reviewedFiles = [], overallLowestScore = 100, lowScoreFile = []\<rparr>"
      and t = 0 and tr = "[]" and inp = demo_inputs and ?tr0.0 = "[]" and t' = 50
      and paths = "[js ''schemas/order.json'', js ''README.md'']"
      and ?tr1.0 = "[Info (js ''No catalog directory specified.''),
                     CallListFiles (js ''acme'') (js ''catalog'') 7]"]
    demo_checks
  obtain pr res' tr2 ev where a:
    "payload_pull_request demo_context = Some pr"
    "performSchemaReview demo_world demo_inputs (repo_owner demo_context) (repo_repo demo_context)
       [js ''schemas/order.json'', js ''README.md''] (pr_base_sha pr) (pr_head_sha pr)
       ([Info (js ''No catalog directory specified.''), CallListFiles (js ''acme'') (js ''catalog'') 7]
         @ [Info (js ''directory: '' @ catalog_directory demo_inputs)]) = (Inr res', tr2)"
    "tr2 = [] @ ev" "comments_posted ev = []" "failures ev = []"
    "snd (run demo_world demo_inputs demo_context []) =
       tr2 @ CallCreateComment (repo_owner demo_context) (repo_repo demo_context) (pr_number pr)
                    (generateCommentBody demo_world (repo_owner demo_context) (repo_repo demo_context) (pr_number pr)
                       (reviewedFiles res') (pr_head_sha pr) (pr_base_sha pr)
                       (orUndefined (catalog_directory demo_inputs)))
              # (case issues_createComment demo_world tr2 (repo_owner demo_context) (repo_repo demo_context) (pr_number pr)
                        (generateCommentBody demo_world (repo_owner demo_context) (repo_repo demo_context) (pr_number pr)
                           (reviewedFiles res') (pr_head_sha pr) (pr_base_sha pr)
                           (orUndefined (catalog_directory demo_inputs))) of
                   Inl e \<Rightarrow> (case e of ErrorObj m \<Rightarrow> [SetFailed m] | NonError v \<Rightarrow> [])
                 | Inr u \<Rightarrow>
                     SetOutput (js ''comment-url'')
                       (commentUrl demo_world demo_context (repo_owner demo_context) (repo_repo demo_context) (pr_number pr))
                     # (if overallLowestScore res' < of_int 50
                        then [SetFailed (thresholdFailure demo_world res' 50)] else []))"
    by blast
  have pr: "pr = \<lparr>pr_number = 7, pr_head_sha = js ''h34d'', pr_base_sha = js ''b4se''\<rparr>"
    using a(1) by (simp add: demo_context_def)
  obtain files tr1 where r: "performSchemaReview demo_world demo_inputs (js ''acme'') (js ''catalog'')
     [js ''schemas/order.json'', js ''README.md''] (js ''b4se'') (js ''h34d'')
     ([Info (js ''No catalog directory specified.''), CallListFiles (js ''acme'') (js ''catalog'') 7]
         @ [Info (js ''directory: '' @ catalog_directory demo_inputs)])
    = (Inr \<lparr>reviewedFiles = files, overallLowestScore = 40, lowScoreFile = js ''schemas/order.json''\<rparr>, tr1)"
    using demo_review_result by blast
  have res: "res' = \<lparr>reviewedFiles = files, overallLowestScore = 40, lowScoreFile = js ''schemas/order.json''\<rparr>"
    using a(2) r by (simp add: pr demo_context_def)
  have cc: "issues_createComment demo_world h x y z b = Inr ()" for h x y z b
    by (simp add: demo_world_def)
  have tf: "thresholdFailure demo_world res' 50 =
     js ''Action failed: File '' @ [0x27] @ js ''schemas/order.json'' @ [0x27]
      @ js '' received an AI review score of 40, which is below the threshold of 50.''"
    by (simp add: thresholdFailure_def res demo_world_def js_def)
  show ?thesis
    unfolding a(6) cc using a(3,4,5) tf
    by (simp add: failures_append comments_posted_append res)
qed

text \<open>
  C6. For every list of paths \<open>performSchemaReview\<close> returns, with one outcome per path
  in the order of the paths, each a validated assessment without failure reason or the
  reviewer's message as failure reason without assessment. Reviewing \<open>paths @ [p]\<close> is
  reviewing \<open>paths\<close> and then \<open>p\<close>, from the trace that \<open>paths\<close> left, and appends
  the outcome of \<open>p\<close>. The outcome of a file carries the assessment when \<open>askAI\<close>
  returns and the error's message when it throws; in both cases \<open>reviewSingleFile\<close>
  returns.
\<close>

theorem orchestrator_one_outcome_per_path:
  "(\<exists>res tr'.
      performSchemaReview w inp owner repo paths baseSha headSha tr = (Inr res, tr')
    \<and> length (reviewedFiles res) = length paths
    \<and> map filePath (reviewedFiles res) = paths
    \<and> list_all outcome_ok (reviewedFiles res))
   \<and> (\<exists>res tr1 entry tr2 res'.
        performSchemaReview w inp owner repo paths baseSha headSha tr = (Inr res, tr1)
      \<and> reviewSingleFile w inp owner repo p baseSha headSha tr1 = (Inr entry, tr2)
      \<and> performSchemaReview w inp owner repo (paths @ [p]) baseSha headSha tr = (Inr res', tr2)
      \<and> reviewedFiles res' = reviewedFiles res @ [entry])
   \<and> (\<exists>old new t.
        reviewSingleFile w inp owner repo p baseSha headSha tr =
          (case askAI w inp (promptForAI p old new) t of
             (Inr review, t') \<Rightarrow>
               (Inr \<lparr>filePath = p, oldFileContent = old, newFileContent = new,
                     aiReview = Some review, aiError = None\<rparr>,
                t' @ [Info (js ''AI review received for '' @ p @ js '': Score ''
                            @ numberToString w (score review))])
           | (Inl error, t') \<Rightarrow>
               (Inr \<lparr>filePath = p, oldFileContent = old, newFileContent = new,
                     aiReview = None,
                     aiError = Some (case error of ErrorObj m \<Rightarrow> m | NonError v \<Rightarrow> v)\<rparr>,
                t' @ [ErrorLog (js ''AI review failed for '' @ p @ js '': ''
                                @ (case error of ErrorObj m \<Rightarrow> m | NonError v \<Rightarrow> v))])))"
proof -
  obtain res tr' where "performSchemaReview w inp owner repo paths baseSha headSha tr = (Inr res, tr')"
    "map filePath (reviewedFiles res) = paths" "list_all outcome_ok (reviewedFiles res)"
    using performSchemaReview_result by blast
  moreover from this have "length (reviewedFiles res) = length paths"
    by (metis length_map)
  ultimately show ?thesis
    using performSchemaReview_snoc[of w inp owner repo paths baseSha headSha tr p]
      reviewSingleFile_outcome[of w inp owner repo p baseSha headSha tr]
    by blast
qed

text \<open>
  C7. \<open>getFileContentAtRef\<close> always returns a string, whatever the path, the revision
  and the world. When the retrieval throws, the string is the placeholder that embeds
  the error's message; when the path resolves to a directory (the response is an array),
  it is the fixed sentinel.
\<close>

theorem getFileContentAtRef_never_raises:
  "(\<exists>text tr'. getFileContentAtRef w owner repo path ref tr = (Inr text, tr'))
   \<and> (\<forall>error. repos_getContent w tr owner repo path ref = Inl error \<longrightarrow>
         fst (getFileContentAtRef w owner repo path ref tr)
           = Inr (js ''Could not retrieve content (Error: '' @ messageOf error @ js '')''))
   \<and> (repos_getContent w tr owner repo path ref = Inr ArrayData \<longrightarrow>
         fst (getFileContentAtRef w owner repo path ref tr)
           = Inr (js ''This is a directory, content not displayed.''))"
  by (auto simp: getFileContentAtRef_def io_defs
      split: sum.splits content_response.splits option.splits prod.splits)

theorem getFileContentAtRef_never_raises_witness:
  "fst (getFileContentAtRef demo_world (js ''acme'') (js ''catalog'') (js ''missing.json'')
          (js ''abc123'') [])
     = Inr (js ''Could not retrieve content (Error: Not Found)'')
   \<and> fst (getFileContentAtRef demo_world (js ''acme'') (js ''catalog'') (js ''schemas'')
          (js ''abc123'') [])
     = Inr (js ''This is a directory, content not displayed.'')"
  using getFileContentAtRef_never_raises[of demo_world "js ''acme''" "js ''catalog''"
      "js ''missing.json''" "js ''abc123''" "[]"]
    getFileContentAtRef_never_raises[of demo_world "js ''acme''" "js ''catalog''"
      "js ''schemas''" "js ''abc123''" "[]"]
  by (simp add: demo_world_def js_def)

text \<open>
  C8, amended. When the model review of the first of two files throws and the review of
  the second gives score 80, the result has two outcomes, the first with the failure
  reason and no assessment, the second with the assessment of score 80, and the lowest
  score is 80, with the second file as \<open>lowScoreFile\<close>.
\<close>

theorem first_fails_second_scores_80:
  assumes "\<And>t m k old new. sdk_generateObject w t m k (promptForAI p1 old new) = Inl err"
    and "\<And>t m k old new. \<exists>a. sdk_generateObject w t m k (promptForAI p2 old new) = Inr a \<and> score a = 80"
  shows "\<exists>e1 e2 tr'.
      performSchemaReview w inp owner repo [p1, p2] baseSha headSha tr
        = (Inr \<lparr>reviewedFiles = [e1, e2], overallLowestScore = 80, lowScoreFile = p2\<rparr>, tr')
    \<and> filePath e1 = p1 \<and> aiReview e1 = None \<and> aiError e1 = Some reviewerFailure
    \<and> filePath e2 = p2 \<and> (\<exists>a. aiReview e2 = Some a \<and> score a = 80) \<and> aiError e2 = None"
  using assms by (rule two_files_first_fails)

theorem first_fails_second_scores_80_witness:
  "\<exists>e1 e2 tr'.
      performSchemaReview demo_world demo_inputs (js ''acme'') (js ''catalog'')
        [js ''bad.json'', js ''README.md''] (js ''b4se'') (js ''h34d'') []
        = (Inr \<lparr>reviewedFiles = [e1, e2], overallLowestScore = 80,
                lowScoreFile = js ''README.md''\<rparr>, tr')
    \<and> filePath e1 = js ''bad.json'' \<and> aiReview e1 = None \<and> aiError e1 = Some reviewerFailure
    \<and> filePath e2 = js ''README.md'' \<and> (\<exists>a. aiReview e2 = Some a \<and> score a = 80)
    \<and> aiError e2 = None"
  by (rule first_fails_second_scores_80[where err = "ErrorObj (js ''rate limited'')"])
    (rule demo_bad, rule demo_readme)

text \<open>
  C8 as stated fails: with \<open>bad.json\<close> (review throws) and \<open>README.md\<close> (score 80) the
  lowest score is 80, not 100.
\<close>

theorem lowest_score_100_counterexample:
  "\<exists>res tr'.
      performSchemaReview demo_world demo_inputs (js ''acme'') (js ''catalog'')
        [js ''bad.json'', js ''README.md''] (js ''b4se'') (js ''h34d'') [] = (Inr res, tr')
    \<and> length (reviewedFiles res) = 2
    \<and> aiReview (reviewedFiles res ! 0) = None \<and> aiError (reviewedFiles res ! 0) \<noteq> None
    \<and> map_option score (aiReview (reviewedFiles res ! 1)) = Some 80
    \<and> overallLowestScore res = 80 \<and> overallLowestScore res \<noteq> 100"
proof -
  from two_files_first_fails[of demo_world "js ''bad.json''" "ErrorObj (js ''rate limited'')"
      "js ''README.md''" demo_inputs "js ''acme''" "js ''catalog''" "js ''b4se''" "js ''h34d''" "[]",
      OF demo_bad demo_readme]
  obtain e1 e2 tr' where
    "performSchemaReview demo_world demo_inputs (js ''acme'') (js ''catalog'')
        [js ''bad.json'', js ''README.md''] (js ''b4se'') (js ''h34d'') []
      = (Inr \<lparr>reviewedFiles = [e1, e2], overallLowestScore = 80,
                lowScoreFile = js ''README.md''\<rparr>, tr')"
    "aiReview e1 = None" "aiError e1 = Some reviewerFailure"
    "\<exists>a. aiReview e2 = Some a \<and> score a = 80"
    by blast
  then show ?thesis by auto
qed

text \<open>
  C9. In a pull request event whose listing, after the optional directory filter, is
  empty: \<open>initialChecksAndGetChangedFiles\<close> returns \<open>shouldContinue = false\<close> (or throws
  when the post of the comment throws), posts no comment when a filter is active and
  exactly the fixed comment when none is, and sets no failure. The whole run then makes
  no call to the model and fetches no content; it posts no comment when a filter is
  active, and exactly the fixed comment when none is and the inputs are valid.
\<close>

theorem empty_selection_stops_without_review:
  assumes "eventName ctx = js ''pull_request''" and "payload_pull_request ctx = Some pr"
    and "\<And>h. \<exists>files. pulls_listFiles w h (repo_owner ctx) (repo_repo ctx) (pr_number pr) = Inr files
              \<and> selected (orUndefined (catalog_directory inp)) files = []"
  shows "(\<exists>r evs.
        initialChecksAndGetChangedFiles w ctx (orUndefined (catalog_directory inp)) tr = (r, tr @ evs)
      \<and> (r = Inr ([], False) \<or> (\<exists>e. r = Inl e))
      \<and> list_all (\<lambda>e. \<not> is_review_call e) evs
      \<and> failures evs = []
      \<and> comments_posted evs =
           (if catalog_directory inp \<noteq> [] then [] else [noFilesChangedComment]))
   \<and> (\<exists>evs. snd (run w inp ctx tr) = tr @ evs
      \<and> list_all (\<lambda>e. \<not> is_review_call e) evs
      \<and> (catalog_directory inp \<noteq> [] \<longrightarrow> comments_posted evs = [])
      \<and> (catalog_directory inp = [] \<and> github_token inp \<noteq> [] \<and> task inp \<in> set VALID_TASKS
           \<and> (\<exists>t. parseInt10 w (failure_threshold inp) = Some t \<and> 0 \<le> t \<and> t \<le> 100)
          \<longrightarrow> comments_posted evs = [noFilesChangedComment]))"
proof -
  obtain files where f: "pulls_listFiles w tr (repo_owner ctx) (repo_repo ctx) (pr_number pr) = Inr files"
      "selected (orUndefined (catalog_directory inp)) files = []"
    using assms(3) by blast
  have "\<exists>r evs.
        initialChecksAndGetChangedFiles w ctx (orUndefined (catalog_directory inp)) tr = (r, tr @ evs)
      \<and> (r = Inr ([], False) \<or> (\<exists>e. r = Inl e))
      \<and> list_all (\<lambda>e. \<not> is_review_call e) evs
      \<and> failures evs = []
      \<and> comments_posted evs =
           (if catalog_directory inp \<noteq> [] then [] else [noFilesChangedComment])"
    using initialChecks_stops[OF assms(1,2) f] by (auto simp: orUndefined_def split: if_splits)
  then show ?thesis using run_stops[OF assms, of tr] by blast
qed

theorem empty_selection_stops_without_review_witness:
  "(\<exists>evs. snd (run quiet_world demo_inputs demo_context []) = evs
      \<and> list_all (\<lambda>e. \<not> is_review_call e) evs
      \<and> comments_posted evs = [noFilesChangedComment])
   \<and> (\<exists>evs. snd (run demo_world (demo_inputs\<lparr>catalog_directory := js ''docs''\<rparr>) demo_context []) = evs
      \<and> list_all (\<lambda>e. \<not> is_review_call e) evs
      \<and> comments_posted evs = [])"
proof -
  have 1: "eventName demo_context = js ''pull_request''"
    "payload_pull_request demo_context = Some \<lparr>pr_number = 7, pr_head_sha = js ''h34d'', pr_base_sha = js ''b4se''\<rparr>"
    by (simp_all add: demo_context_def)
  have 2: "\<exists>files. pulls_listFiles quiet_world h (repo_owner demo_context) (repo_repo demo_context)
              (pr_number \<lparr>pr_number = 7, pr_head_sha = js ''h34d'', pr_base_sha = js ''b4se''\<rparr>) = Inr files
              \<and> selected (orUndefined (catalog_directory demo_inputs)) files = []" for h
    by (simp add: quiet_world_def selected_def orUndefined_def demo_inputs_def)
  have 3: "\<exists>files. pulls_listFiles demo_world h (repo_owner demo_context) (repo_repo demo_context)
              (pr_number \<lparr>pr_number = 7, pr_head_sha = js ''h34d'', pr_base_sha = js ''b4se''\<rparr>) = Inr files
              \<and> selected (orUndefined (catalog_directory (demo_inputs\<lparr>catalog_directory := js ''docs''\<rparr>))) files = []" for h
    by (simp add: demo_world_def selected_def orUndefined_def js_def)
  have 4: "catalog_directory demo_inputs = [] \<and> github_token demo_inputs \<noteq> []
      \<and> task demo_inputs \<in> set VALID_TASKS
      \<and> (\<exists>t. parseInt10 quiet_world (failure_threshold demo_inputs) = Some t \<and> 0 \<le> t \<and> t \<le> 100)"
    by (simp add: demo_inputs_def quiet_world_def demo_world_def VALID_TASKS_def js_def)
  have 5: "catalog_directory (demo_inputs\<lparr>catalog_directory := js ''docs''\<rparr>) \<noteq> []"
    by (simp add: js_def)
  show ?thesis
    using empty_selection_stops_without_review[OF 1 2, of "[]"]
      empty_selection_stops_without_review[OF 1 3, of "[]"] 4 5
    by (metis append_Nil)
qed

text \<open>
  C10, amended. After \<open>performSchemaReview\<close>, when some assessment has a score below 100,
  \<open>lowScoreFile\<close> is the path of the first outcome whose assessment has the lowest
  score; when no assessment has a score below 100 it is the empty string. A threshold
  that \<open>run\<close> accepts is in [0,100], so when the lowest score is below the threshold
  \<open>lowScoreFile\<close> is one of the reviewed paths.
\<close>

theorem lowScoreFile_is_first_minimum:
  "(\<exists>res tr'.
      performSchemaReview w inp owner repo paths baseSha headSha tr = (Inr res, tr')
    \<and> overallLowestScore res = Min (insert 100 (set (assessmentScores (reviewedFiles res))))
    \<and> ((\<exists>s \<in> set (assessmentScores (reviewedFiles res)). s < 100) \<longrightarrow>
         map_option filePath (find (hasScore (overallLowestScore res)) (reviewedFiles res))
           = Some (lowScoreFile res))
    \<and> ((\<forall>s \<in> set (assessmentScores (reviewedFiles res)). 100 \<le> s) \<longrightarrow> lowScoreFile res = [])
    \<and> (\<forall>t::int. t \<le> 100 \<longrightarrow> overallLowestScore res < of_int t \<longrightarrow>
         lowScoreFile res \<in> set paths))
   \<and> (run_checks w inp ctx tr0 = (Inr (Some (threshold, changed)), tr1) \<longrightarrow>
        0 \<le> threshold \<and> threshold \<le> 100)"
proof -
  obtain res tr' where r:
    "performSchemaReview w inp owner repo paths baseSha headSha tr = (Inr res, tr')"
    "map filePath (reviewedFiles res) = paths"
    "overallLowestScore res = Min (insert 100 (set (assessmentScores (reviewedFiles res))))"
    "overallLowestScore res < 100 \<longrightarrow>
         map_option filePath (find (hasScore (overallLowestScore res)) (reviewedFiles res))
           = Some (lowScoreFile res)"
    "\<not> overallLowestScore res < 100 \<longrightarrow> lowScoreFile res = []"
    using performSchemaReview_result by blast
  let ?S = "set (assessmentScores (reviewedFiles res))"
  have lt: "overallLowestScore res < 100 \<longleftrightarrow> (\<exists>s \<in> ?S. s < 100)"
    unfolding r(3) by (subst Min_less_iff) auto
  have inpaths: "lowScoreFile res \<in> set paths" if "overallLowestScore res < 100"
  proof -
    from that r(4) obtain x where x: "find (hasScore (overallLowestScore res)) (reviewedFiles res) = Some x"
      "filePath x = lowScoreFile res" by auto
    then have "x \<in> set (reviewedFiles res)"
      by (auto simp: find_Some_iff)
    then have "filePath x \<in> set (map filePath (reviewedFiles res))" by simp
    then show ?thesis using x(2) r(2) by simp
  qed
  have gate: "\<forall>t::int. t \<le> 100 \<longrightarrow> overallLowestScore res < of_int t \<longrightarrow> lowScoreFile res \<in> set paths"
  proof (intro allI impI)
    fix t :: int assume "t \<le> 100" "overallLowestScore res < of_int t"
    then have "(of_int t :: rat) \<le> 100" by (metis of_int_le_iff of_int_numeral)
    then have "overallLowestScore res < 100" using \<open>overallLowestScore res < of_int t\<close> by simp
    then show "lowScoreFile res \<in> set paths" by (rule inpaths)
  qed
  have "(\<forall>s \<in> ?S. 100 \<le> s) \<longrightarrow> lowScoreFile res = []"
    using r(5) lt by (auto simp: not_less)
  then show ?thesis
    using r(1,3,4) lt gate run_checks_Some[of w inp ctx tr0 threshold changed tr1] by blast
qed

theorem lowScoreFile_is_first_minimum_witness:
  "\<exists>res tr'.
      performSchemaReview demo_world demo_inputs (js ''acme'') (js ''catalog'')
        [js ''schemas/order.json'', js ''README.md''] (js ''b4se'') (js ''h34d'') [] = (Inr res, tr')
    \<and> (\<exists>s \<in> set (assessmentScores (reviewedFiles res)). s < 100)
    \<and> map_option filePath (find (hasScore (overallLowestScore res)) (reviewedFiles res))
           = Some (js ''schemas/order.json'')
    \<and> overallLowestScore res < of_int 50 \<and> lowScoreFile res \<in> set [js ''schemas/order.json'', js ''README.md'']"
proof -
  obtain files tr1 where d: "performSchemaReview demo_world demo_inputs (js ''acme'') (js ''catalog'')
     [js ''schemas/order.json'', js ''README.md''] (js ''b4se'') (js ''h34d'') []
    = (Inr \<lparr>reviewedFiles = files, overallLowestScore = 40, lowScoreFile = js ''schemas/order.json''\<rparr>, tr1)"
    using demo_review_result by blast
  from lowScoreFile_is_first_minimum[of demo_world demo_inputs "js ''acme''" "js ''catalog''"
      "[js ''schemas/order.json'', js ''README.md'']" "js ''b4se''" "js ''h34d''" "[]"]
  obtain res tr' where r:
    "performSchemaReview demo_world demo_inputs (js ''acme'') (js ''catalog'')
        [js ''schemas/order.json'', js ''README.md''] (js ''b4se'') (js ''h34d'') [] = (Inr res, tr')"
    "overallLowestScore res = Min (insert 100 (set (assessmentScores (reviewedFiles res))))"
    "(\<exists>s \<in> set (assessmentScores (reviewedFiles res)). s < 100) \<longrightarrow>
         map_option filePath (find (hasScore (overallLowestScore res)) (reviewedFiles res))
           = Some (lowScoreFile res)"
    "\<forall>t::int. t \<le> 100 \<longrightarrow> overallLowestScore res < of_int t \<longrightarrow>
         lowScoreFile res \<in> set [js ''schemas/order.json'', js ''README.md'']"
    by blast
  have res: "res = \<lparr>reviewedFiles = files, overallLowestScore = 40, lowScoreFile = js ''schemas/order.json''\<rparr>"
    using d r(1) by simp
  have low: "overallLowestScore res < of_int 50" by (simp add: res)
  have ex: "\<exists>s \<in> set (assessmentScores (reviewedFiles res)). s < 100"
  proof (rule ccontr)
    assume "\<not> (\<exists>s \<in> set (assessmentScores (reviewedFiles res)). s < 100)"
    then have "\<forall>s \<in> set (assessmentScores (reviewedFiles res)). 100 \<le> s" by auto
    then have "100 \<le> Min (insert 100 (set (assessmentScores (reviewedFiles res))))"
      by (subst Min_ge_iff) auto
    then have "100 \<le> overallLowestScore res" by (simp only: r(2))
    moreover have "overallLowestScore res = 40" by (simp add: res)
    ultimately show False by linarith
  qed
  have "lowScoreFile res \<in> set [js ''schemas/order.json'', js ''README.md'']"
  proof -
    from r(4) have "(50::int) \<le> 100 \<longrightarrow> overallLowestScore res < of_int 50 \<longrightarrow>
         lowScoreFile res \<in> set [js ''schemas/order.json'', js ''README.md'']"
      by blast
    then show ?thesis using low by simp
  qed
  then show ?thesis using r(1,3) ex low res by auto
qed

text \<open>
  C10 as stated fails in its last clause: no run that passes its checks and reviews
  non-empty paths has a lowest score below its threshold together with an empty
  \<open>lowScoreFile\<close>.
\<close>

theorem empty_path_failure_counterexample:
  "\<not> (\<exists>w inp ctx tr0 tr1 t paths owner repo baseSha headSha tr res tr'.
        run_checks w inp ctx tr0 = (Inr (Some (t, paths)), tr1)
      \<and> [] \<notin> set paths
      \<and> performSchemaReview w inp owner repo paths baseSha headSha tr = (Inr res, tr')
      \<and> overallLowestScore res < of_int t
      \<and> lowScoreFile res = [])"
proof
  assume "\<exists>w inp ctx tr0 tr1 t paths owner repo baseSha headSha tr res tr'.
        run_checks w inp ctx tr0 = (Inr (Some (t, paths)), tr1)
      \<and> [] \<notin> set paths
      \<and> performSchemaReview w inp owner repo paths baseSha headSha tr = (Inr res, tr')
      \<and> overallLowestScore res < of_int t
      \<and> lowScoreFile res = []"
  then obtain w inp ctx tr0 tr1 t paths owner repo baseSha headSha tr res tr' where a:
    "run_checks w inp ctx tr0 = (Inr (Some (t, paths)), tr1)"
    "[] \<notin> set paths"
    "performSchemaReview w inp owner repo paths baseSha headSha tr = (Inr res, tr')"
    "overallLowestScore res < of_int t"
    "lowScoreFile res = []"
    by blast
  have "t \<le> 100" using run_checks_Some[OF a(1)] by blast
  then have "(of_int t :: rat) \<le> 100" by (metis of_int_le_iff of_int_numeral)
  then have low: "overallLowestScore res < 100" using a(4) by simp
  obtain res2 tr2 where r:
    "performSchemaReview w inp owner repo paths baseSha headSha tr = (Inr res2, tr2)"
    "map filePath (reviewedFiles res2) = paths"
    "overallLowestScore res2 < 100 \<longrightarrow>
         map_option filePath (find (hasScore (overallLowestScore res2)) (reviewedFiles res2))
           = Some (lowScoreFile res2)"
    using performSchemaReview_result by blast
  have eq: "res2 = res" using a(3) r(1) by simp
  from r(3) low eq obtain x where x: "find (hasScore (overallLowestScore res)) (reviewedFiles res) = Some x"
      "filePath x = lowScoreFile res" by auto
  then have "x \<in> set (reviewedFiles res)" by (auto simp: find_Some_iff)
  then have "filePath x \<in> set (map filePath (reviewedFiles res))" by simp
  moreover have "map filePath (reviewedFiles res) = paths" using r(2) eq by simp
  ultimately have "filePath x \<in> set paths" by (simp only:)
  then have "lowScoreFile res \<in> set paths" by (simp only: x(2))
  then show False using a(2,5) by simp
qed

end
